theory Spec2Isabelle
  imports Main "HOL-Library.AList" "HOL-Library.Word"
begin

section \<open>Shared vocabulary: sockets, room metadata\<close>

text \<open>
  A WebSocket object is identified by a number; two sockets are the same object
  exactly when the numbers are equal (the source compares them with \<open>!==\<close> and
  uses them as keys of \<open>Map\<close> and members of \<open>Set\<close>).  \<open>readyState\<close> takes the
  four values of the \<open>ws\<close> package.
\<close>

type_synonym sock = nat

datatype ready_state = CONNECTING | OPEN | CLOSING | CLOSED

text \<open>
  A JavaScript string whose length matters is a list of UTF-16 code units
  (\<open>s.length\<close> counts them).  Strings that are only compared for equality are
  plain \<open>string\<close>s.
\<close>

type_synonym jsstring = "16 word list"

text \<open>
  \<open>interface Room\<close> of the persistence module.  Optional fields are options;
  \<open>participants\<close> is never read by the server and is left out.
\<close>

record Room =
  room_id :: string
  token :: jsstring
  room_name :: string
  createdAt :: nat
  hostUserId :: "string option"
  requireApproval :: "bool option"
  defaultPermission :: "string option"

section \<open>Control room engine (control-handler)\<close>

definition ALLOWED_TYPES :: "string list" where
  "ALLOWED_TYPES =
     [''file-op'', ''presence-update'', ''follow-update'', ''session-end'',
      ''join-request'', ''join-response'', ''focus-request'', ''summon'', ''kick'']"

text \<open>
  \<open>interface ControlClient\<close>.  The field \<open>ws\<close> is the key under which the client
  is stored; what the handler reads of the socket object, \<open>ws.readyState\<close>, is
  kept beside the other fields.  \<open>permission\<close> is a string: the handler stores
  whatever truthy value a host's \<open>join-response\<close> carries.
\<close>

record ControlClient =
  userId :: string
  displayName :: string
  isHost :: bool
  approved :: bool
  permission :: string
  readyState :: ready_state

text \<open>
  \<open>interface ControlRoom\<close>.  A JavaScript \<open>Map\<close> iterates in insertion order and
  \<open>set\<close> on a present key keeps its place, which is what \<open>AList.update\<close> does.
\<close>

record ControlRoom =
  clients :: "(sock \<times> ControlClient) list"
  pendingApprovals :: "(string \<times> sock) list"

text \<open>
  An inbound control message after \<open>JSON.parse\<close>.  The fields are the ones the
  handler reads, at the types it casts them to; \<open>None\<close> is an absent field (or,
  for \<open>m_type\<close>, a value that is not a string).  \<open>m_approved\<close> is the truthiness
  of \<open>msg.approved\<close>.
\<close>

record ControlMsg =
  m_type :: "string option"
  m_userId :: "string option"
  m_displayName :: "string option"
  m_avatarUrl :: "string option"
  m_approved :: bool
  m_permission :: "string option"
  m_targetUserId :: "string option"

text \<open>
  The three outcomes of \<open>JSON.parse(data.toString())\<close> followed by \<open>msg.type\<close>:
  the parse throws (caught, the handler returns); the text is the JSON literal
  \<open>null\<close>, on which reading \<open>msg.type\<close> throws a TypeError outside the
  \<open>try\<close>; any other value.
\<close>

datatype parsed = ParseError | ParsedNull | ParsedValue ControlMsg

datatype handler_error = TypeError | NotConnected

text \<open>What the server writes to a socket of the control channel.\<close>

datatype payload =
    Raw string
  | JoinRequestFwd string string string
  | JoinResponse bool string
  | Kicked
  | PresenceLeave string

type_synonym sends = "(sock \<times> payload) list"

definition truthy :: "string option \<Rightarrow> bool" where
  "truthy v = (case v of None \<Rightarrow> False | Some s \<Rightarrow> s \<noteq> [])"

definition or_empty :: "string option \<Rightarrow> string" where
  "or_empty v = (case v of None \<Rightarrow> [] | Some s \<Rightarrow> s)"

text \<open>\<open>ws.close()\<close> of the \<open>ws\<close> package: a closed socket stays closed, any other
  socket is closing afterwards.\<close>

definition ws_close :: "ready_state \<Rightarrow> ready_state" where
  "ws_close r = (if r = CLOSED then CLOSED else CLOSING)"

text \<open>\<open>broadcast(room, data, exclude)\<close>: the loop over \<open>room.clients\<close>.\<close>

fun broadcast_loop :: "(sock \<times> ControlClient) list \<Rightarrow> payload \<Rightarrow> sock option \<Rightarrow> sends" where
  "broadcast_loop [] data exclude = []"
| "broadcast_loop ((ws, client) # rest) data exclude =
     (if Some ws \<noteq> exclude \<and> approved client \<and> readyState client = OPEN
      then (ws, data) # broadcast_loop rest data exclude
      else broadcast_loop rest data exclude)"

definition broadcast :: "ControlRoom \<Rightarrow> payload \<Rightarrow> sock option \<Rightarrow> sends" where
  "broadcast room data exclude = broadcast_loop (clients room) data exclude"

definition sendTo :: "ready_state \<Rightarrow> sock \<Rightarrow> payload \<Rightarrow> sends" where
  "sendTo r ws msg = (if r = OPEN then [(ws, msg)] else [])"

fun findHost_loop :: "(sock \<times> ControlClient) list \<Rightarrow> (sock \<times> ControlClient) option" where
  "findHost_loop [] = None"
| "findHost_loop ((ws, client) # rest) =
     (if isHost client then Some (ws, client) else findHost_loop rest)"

definition findHost :: "ControlRoom \<Rightarrow> (sock \<times> ControlClient) option" where
  "findHost room = findHost_loop (clients room)"

text \<open>The client entry made by the \<open>connection\<close> handler, and the handler itself
  (\<open>room.clients.set(ws, client)\<close>).  The socket of a completed upgrade is open.\<close>

definition new_client :: "Room option \<Rightarrow> ControlClient" where
  "new_client serverRoom =
     \<lparr> userId = [], displayName = [], isHost = False, approved = True,
       permission =
         (case serverRoom of
            None \<Rightarrow> ''read-write''
          | Some r \<Rightarrow> (if truthy (defaultPermission r) then or_empty (defaultPermission r)
                       else ''read-write'')),
       readyState = OPEN \<rparr>"

definition on_connection :: "Room option \<Rightarrow> sock \<Rightarrow> ControlRoom \<Rightarrow> ControlRoom" where
  "on_connection serverRoom ws room =
     room\<lparr>clients := AList.update ws (new_client serverRoom) (clients room)\<rparr>"

definition requires_approval :: "Room option \<Rightarrow> bool" where
  "requires_approval serverRoom =
     (case serverRoom of None \<Rightarrow> False | Some r \<Rightarrow> requireApproval r = Some True)"

definition pinned_host :: "Room option \<Rightarrow> string option" where
  "pinned_host serverRoom =
     (case serverRoom of
        None \<Rightarrow> None
      | Some r \<Rightarrow> (if truthy (hostUserId r) then hostUserId r else None))"

text \<open>The \<open>join-request\<close> branch.\<close>

definition handle_join_request ::
  "Room option \<Rightarrow> sock \<Rightarrow> ControlMsg \<Rightarrow> ControlClient \<Rightarrow> ControlRoom \<Rightarrow> ControlRoom \<times> sends" where
  "handle_join_request serverRoom ws msg client room =
     (let client1 = client\<lparr>userId := or_empty (m_userId msg),
                            displayName := or_empty (m_displayName msg)\<rparr>
      in if requires_approval serverRoom then
           (let client2 = client1\<lparr>approved := False\<rparr>;
                room1 = room\<lparr>clients := AList.update ws client2 (clients room),
                             pendingApprovals :=
                               AList.update (userId client2) ws (pendingApprovals room)\<rparr>
            in (room1,
                case findHost room1 of
                  None \<Rightarrow> []
                | Some (hws, host) \<Rightarrow>
                    sendTo (readyState host) hws
                      (JoinRequestFwd (userId client2) (displayName client2)
                         (or_empty (m_avatarUrl msg)))))
         else
           (let client2 = client1\<lparr>approved := True\<rparr>;
                room1 = room\<lparr>clients := AList.update ws client2 (clients room)\<rparr>
            in (room1, sendTo (readyState client2) ws (JoinResponse True (permission client2)))))"

text \<open>The \<open>join-response\<close> branch, entered only when the sender is host.
  \<open>pendingApprovals.get(undefined)\<close> finds nothing: the keys are strings.\<close>

definition handle_join_response :: "ControlMsg \<Rightarrow> ControlRoom \<Rightarrow> ControlRoom \<times> sends" where
  "handle_join_response msg room =
     (case m_userId msg of
        None \<Rightarrow> (room, [])
      | Some targetUserId \<Rightarrow>
          (case map_of (pendingApprovals room) targetUserId of
             None \<Rightarrow> (room, [])
           | Some targetWs \<Rightarrow>
               (let room1 = room\<lparr>pendingApprovals :=
                                   AList.delete targetUserId (pendingApprovals room)\<rparr>
                in case map_of (clients room1) targetWs of
                     None \<Rightarrow> (room1, [])
                   | Some targetClient \<Rightarrow>
                       (let t1 = targetClient\<lparr>approved := m_approved msg\<rparr>;
                            t2 = (if truthy (m_permission msg)
                                  then t1\<lparr>permission := or_empty (m_permission msg)\<rparr>
                                  else t1)
                        in (room1\<lparr>clients := AList.update targetWs t2 (clients room1)\<rparr>,
                            sendTo (readyState t2) targetWs
                              (JoinResponse (approved t2) (permission t2)))))))"

text \<open>The \<open>kick\<close> branch, entered only when the sender is host: the loop over
  \<open>room.clients\<close> sends \<open>kicked\<close> to every client with the target user id and
  closes its socket.\<close>

fun kick_loop :: "(sock \<times> ControlClient) list \<Rightarrow> string option \<Rightarrow> (sock \<times> ControlClient) list \<times> sends" where
  "kick_loop [] targetUserId = ([], [])"
| "kick_loop ((clientWs, c) # rest) targetUserId =
     (let (rest', out) = kick_loop rest targetUserId
      in if Some (userId c) = targetUserId
         then ((clientWs, c\<lparr>readyState := ws_close (readyState c)\<rparr>) # rest',
               sendTo (readyState c) clientWs Kicked @ out)
         else ((clientWs, c) # rest', out))"

definition handle_kick :: "ControlMsg \<Rightarrow> ControlRoom \<Rightarrow> ControlRoom \<times> sends" where
  "handle_kick msg room =
     (let (cs, out) = kick_loop (clients room) (m_userId msg)
      in (room\<lparr>clients := cs\<rparr>, out))"

text \<open>The targeted \<open>summon\<close> branch.\<close>

fun summon_loop :: "(sock \<times> ControlClient) list \<Rightarrow> string option \<Rightarrow> payload \<Rightarrow> sends" where
  "summon_loop [] targetUserId data = []"
| "summon_loop ((clientWs, c) # rest) targetUserId data =
     (if Some (userId c) = targetUserId \<and> readyState c = OPEN
      then (clientWs, data) # summon_loop rest targetUserId data
      else summon_loop rest targetUserId data)"

text \<open>Identity tracking of \<open>presence-update\<close>: host status is decided when the
  message carries a user id and the client has none recorded.\<close>

definition track_presence :: "Room option \<Rightarrow> ControlMsg \<Rightarrow> ControlClient \<Rightarrow> ControlRoom \<Rightarrow> ControlClient" where
  "track_presence serverRoom msg client room =
     (let c1 =
        (if truthy (m_userId msg) then
           (let c0 =
              (if userId client = [] then
                 (case pinned_host serverRoom of
                    Some h \<Rightarrow> client\<lparr>isHost := (m_userId msg = Some h)\<rparr>
                  | None \<Rightarrow> client\<lparr>isHost := (findHost room = None)\<rparr>)
               else client)
            in c0\<lparr>userId := or_empty (m_userId msg)\<rparr>)
         else client)
      in if truthy (m_displayName msg)
         then c1\<lparr>displayName := or_empty (m_displayName msg)\<rparr>
         else c1)"

text \<open>
  The \<open>message\<close> handler of one connection.  \<open>serverRoom\<close> is the value of
  \<open>getRoom(roomId)\<close> taken when the connection was made, \<open>ws\<close> the socket of
  the connection, \<open>data\<close> the received text.  The handler's \<open>client\<close> is the
  entry stored for \<open>ws\<close>; a socket that has no entry has closed, and a closed
  socket delivers no message.
\<close>

definition on_message ::
  "Room option \<Rightarrow> sock \<Rightarrow> string \<Rightarrow> parsed \<Rightarrow> ControlRoom \<Rightarrow> handler_error + (ControlRoom \<times> sends)" where
  "on_message serverRoom ws data p room =
     (case p of
        ParseError \<Rightarrow> Inr (room, [])
      | ParsedNull \<Rightarrow> Inl TypeError
      | ParsedValue msg \<Rightarrow>
          (case map_of (clients room) ws of
             None \<Rightarrow> Inl NotConnected
           | Some client \<Rightarrow>
               (case m_type msg of
                  None \<Rightarrow> Inr (room, [])
                | Some t \<Rightarrow>
                    if t \<notin> set ALLOWED_TYPES then Inr (room, [])
                    else if t = ''join-request''
                      then Inr (handle_join_request serverRoom ws msg client room)
                    else if t = ''join-response'' \<and> isHost client
                      then Inr (handle_join_response msg room)
                    else if t = ''kick'' \<and> isHost client
                      then Inr (handle_kick msg room)
                    else if t = ''file-op'' \<and> permission client = ''read-only''
                      then Inr (room, [])
                    else if \<not> approved client then Inr (room, [])
                    else if t = ''summon'' \<and> m_targetUserId msg \<noteq> Some ''__all__''
                      then Inr (room, summon_loop (clients room) (m_targetUserId msg) (Raw data))
                    else
                      (let room1 =
                         (if t = ''presence-update''
                          then room\<lparr>clients :=
                                 AList.update ws (track_presence serverRoom msg client room)
                                   (clients room)\<rparr>
                          else room)
                       in Inr (room1, broadcast room1 (Raw data) (Some ws))))))"

text \<open>The \<open>close\<close> handler of one connection: the pending approval under the
  client's user id is withdrawn, the remaining approved clients are told that
  the user left, and the client is removed.  (A room left without clients is
  then dropped from the room map.)\<close>

definition on_close :: "sock \<Rightarrow> ControlRoom \<Rightarrow> ControlRoom \<times> sends" where
  "on_close ws room =
     (case map_of (clients room) ws of
        None \<Rightarrow> (room\<lparr>clients := AList.delete ws (clients room)\<rparr>, [])
      | Some closingClient \<Rightarrow>
          (let room1 = room\<lparr>pendingApprovals :=
                              AList.delete (userId closingClient) (pendingApprovals room)\<rparr>;
               out = (if userId closingClient \<noteq> []
                      then broadcast room1 (PresenceLeave (userId closingClient)) (Some ws)
                      else [])
           in (room1\<lparr>clients := AList.delete ws (clients room1)\<rparr>, out)))"

section \<open>CRDT room engine (ws-handler)\<close>

subsection \<open>Frames and the framing varint\<close>

type_synonym bytes = "8 word list"

datatype decode_error = UnexpectedEndOfArray | IntegerOutOfRange

definition MAX_SAFE_INTEGER :: nat where
  "MAX_SAFE_INTEGER = 2 ^ 53 - 1"

text \<open>
  \<open>decoding.readVarUint\<close> of \<open>lib0\<close>: seven bits per byte, least significant
  group first, the top bit of a byte says that another byte follows.  The result
  is the value and the undecoded rest.  JavaScript computes in doubles; the
  natural numbers here agree with them on every value the handler compares
  with \<open>0\<close>, \<open>1\<close> and \<open>2\<close>.
\<close>

fun readVarUint_loop :: "bytes \<Rightarrow> nat \<Rightarrow> nat \<Rightarrow> decode_error + (nat \<times> bytes)" where
  "readVarUint_loop [] num mult = Inl UnexpectedEndOfArray"
| "readVarUint_loop (r # rest) num mult =
     (let num' = num + (unat r mod 128) * mult
      in if unat r < 128 then Inr (num', rest)
         else if num' > MAX_SAFE_INTEGER then Inl IntegerOutOfRange
         else readVarUint_loop rest num' (mult * 128))"

definition readVarUint :: "bytes \<Rightarrow> decode_error + (nat \<times> bytes)" where
  "readVarUint arr = readVarUint_loop arr 0 1"

definition messageSync :: nat where "messageSync = 0"
definition messageAwareness :: nat where "messageAwareness = 1"
definition messageFileOp :: nat where "messageFileOp = 2"

text \<open>
  What the server writes to a socket of the CRDT channel.  The server does not
  interpret replica or awareness contents, so a frame built by the protocol
  library is named by what went into it: the step-1 query, the reply that
  \<open>readSyncMessage\<close> wrote, an update, the awareness ids encoded; a relayed frame
  carries the received bytes unchanged.
\<close>

datatype frame =
    SyncStep1
  | SyncReply bytes
  | SyncUpdate bytes
  | AwarenessFrame "nat list"
  | Relayed bytes

type_synonym frames = "(sock \<times> frame) list"

subsection \<open>Per-document state and its event handlers\<close>

text \<open>
  \<open>interface RoomState\<close>.  \<open>doc\<close> is the reference of the \<open>Y.Doc\<close> object;
  \<open>awareness\<close> the states map of the awareness object (client id to state);
  \<open>clients_set\<close> the \<open>Set\<close> of sockets in insertion order; the timers hold the
  handle \<open>setTimeout\<close> returned.
\<close>

record RoomState =
  doc :: nat
  awareness :: "(nat \<times> string) list"
  clients_set :: "sock list"
  clientAwarenessIds :: "(sock \<times> nat list) list"
  cleanupTimer :: "nat option"
  persistTimer :: "nat option"

text \<open>\<open>Set.add\<close>: a member is not added twice.\<close>

definition set_add :: "'a \<Rightarrow> 'a list \<Rightarrow> 'a list" where
  "set_add x xs = (if x \<in> set xs then xs else xs @ [x])"

text \<open>The \<open>forEach\<close> of the \<open>update\<close> handler of the replica and of the
  \<open>messageFileOp\<close> case: every client other than the origin whose socket is open.
  An origin that is not a socket is \<open>None\<close>.\<close>

fun fanout_others :: "(sock \<Rightarrow> ready_state) \<Rightarrow> sock list \<Rightarrow> sock option \<Rightarrow> frame \<Rightarrow> frames" where
  "fanout_others rs [] origin msg = []"
| "fanout_others rs (client # rest) origin msg =
     (if Some client \<noteq> origin \<and> rs client = OPEN
      then (client, msg) # fanout_others rs rest origin msg
      else fanout_others rs rest origin msg)"

text \<open>The \<open>forEach\<close> of the \<open>update\<close> handler of the awareness object: every client
  whose socket is open.\<close>

fun fanout_all :: "(sock \<Rightarrow> ready_state) \<Rightarrow> sock list \<Rightarrow> frame \<Rightarrow> frames" where
  "fanout_all rs [] msg = []"
| "fanout_all rs (client # rest) msg =
     (if rs client = OPEN
      then (client, msg) # fanout_all rs rest msg
      else fanout_all rs rest msg)"

definition doc_update_fanout :: "(sock \<Rightarrow> ready_state) \<Rightarrow> RoomState \<Rightarrow> bytes \<Rightarrow> sock option \<Rightarrow> frames" where
  "doc_update_fanout rs state update origin =
     fanout_others rs (clients_set state) origin (SyncUpdate update)"

text \<open>The awareness \<open>update\<close> handler: ids of \<open>added\<close> and \<open>updated\<close> are recorded
  under an origin that is a socket; the frame goes to every open client.\<close>

fun add_ids :: "nat list \<Rightarrow> nat list \<Rightarrow> nat list" where
  "add_ids ids [] = ids"
| "add_ids ids (i # rest) = add_ids (set_add i ids) rest"

definition track_ids :: "(sock \<times> nat list) list \<Rightarrow> sock \<Rightarrow> nat list \<Rightarrow> nat list \<Rightarrow> (sock \<times> nat list) list" where
  "track_ids idx origin added updated =
     (let ids = (case map_of idx origin of None \<Rightarrow> [] | Some ids \<Rightarrow> ids)
      in AList.update origin (add_ids (add_ids ids added) updated) idx)"

definition awareness_update_handler ::
  "(sock \<Rightarrow> ready_state) \<Rightarrow> RoomState \<Rightarrow> nat list \<Rightarrow> nat list \<Rightarrow> nat list \<Rightarrow> sock option \<Rightarrow> RoomState \<times> frames" where
  "awareness_update_handler rs state added updated removed origin =
     (let state1 =
        (case origin of
           None \<Rightarrow> state
         | Some ws \<Rightarrow>
             state\<lparr>clientAwarenessIds := track_ids (clientAwarenessIds state) ws added updated\<rparr>)
      in (state1, fanout_all rs (clients_set state1) (AwarenessFrame (added @ updated @ removed))))"

text \<open>
  \<open>removeAwarenessStates\<close> of \<open>y-protocols\<close>: every listed id that has a state
  loses it and is reported as removed; when something was removed the awareness
  object emits \<open>update\<close> with the given origin (here always \<open>null\<close>), so the
  handler above runs.
\<close>

fun removeAwarenessStates_loop :: "(nat \<times> string) list \<Rightarrow> nat list \<Rightarrow> (nat \<times> string) list \<times> nat list" where
  "removeAwarenessStates_loop states [] = (states, [])"
| "removeAwarenessStates_loop states (clientID # rest) =
     (if clientID \<in> fst ` set states
      then (let (states', removed) = removeAwarenessStates_loop (AList.delete clientID states) rest
            in (states', clientID # removed))
      else removeAwarenessStates_loop states rest)"

definition removeAwarenessStates ::
  "(sock \<Rightarrow> ready_state) \<Rightarrow> RoomState \<Rightarrow> nat list \<Rightarrow> RoomState \<times> frames" where
  "removeAwarenessStates rs state ids =
     (let (states', removed) = removeAwarenessStates_loop (awareness state) ids;
          state1 = state\<lparr>awareness := states'\<rparr>
      in if removed \<noteq> []
         then awareness_update_handler rs state1 [] [] removed None
         else (state1, []))"

text \<open>The \<open>close\<close> handler of a socket, up to the point where it looks at the
  number of clients left.\<close>

definition ws_close_handler :: "(sock \<Rightarrow> ready_state) \<Rightarrow> sock \<Rightarrow> RoomState \<Rightarrow> RoomState \<times> frames" where
  "ws_close_handler rs ws state =
     (let state1 = state\<lparr>clients_set := removeAll ws (clients_set state)\<rparr>;
          (state2, out) =
            (case map_of (clientAwarenessIds state1) ws of
               None \<Rightarrow> (state1, [])
             | Some clientIds \<Rightarrow>
                 if clientIds \<noteq> [] then removeAwarenessStates rs state1 clientIds
                 else (state1, []))
      in (state2\<lparr>clientAwarenessIds := AList.delete ws (clientAwarenessIds state2)\<rparr>, out))"

text \<open>\<open>ws.send\<close> where the source calls it unguarded: the \<open>ws\<close> package delivers
  nothing on a socket that is not open.\<close>

definition ws_send :: "(sock \<Rightarrow> ready_state) \<Rightarrow> sock \<Rightarrow> frame \<Rightarrow> frames" where
  "ws_send rs ws f = (if rs ws = OPEN then [(ws, f)] else [])"

text \<open>\<open>sendSyncStep1\<close> and \<open>sendAwarenessState\<close>, called for a socket that has just
  been added.\<close>

definition sendSyncStep1 :: "(sock \<Rightarrow> ready_state) \<Rightarrow> sock \<Rightarrow> frames" where
  "sendSyncStep1 rs ws = ws_send rs ws SyncStep1"

definition sendAwarenessState :: "(sock \<Rightarrow> ready_state) \<Rightarrow> sock \<Rightarrow> (nat \<times> string) list \<Rightarrow> frames" where
  "sendAwarenessState rs ws states =
     (if length states > 0 then ws_send rs ws (AwarenessFrame (map fst states)) else [])"

subsection \<open>The engine: room map, pending creations, timers\<close>

text \<open>
  The engine is single-threaded; its handlers interleave at their \<open>await\<close>s.
  The state below holds, beside the two maps of the source, the calls that are
  suspended at an \<open>await\<close> and the pending timers, so that every run of the
  server is a sequence of events, each handled to its next suspension.

  One number names a \<open>createRoom\<close> call, the promise it returns, the \<open>Y.Doc\<close> it
  constructs and the \<open>RoomState\<close> object it builds; \<open>heap\<close> maps the number to
  the object's fields.  \<open>constructed\<close> logs every \<open>new Y.Doc()\<close>, \<open>destroyed\<close>
  every \<open>doc.destroy()\<close>, \<open>persist_calls\<close> every \<open>p.persistDoc\<close>, \<open>sent\<close> every
  frame written.
\<close>

datatype timer_cb = CleanupCb string nat | PersistCb string nat

record Engine =
  roomStates :: "(string \<times> nat) list"
  pendingRooms :: "(string \<times> nat) list"
  heap :: "(nat \<times> RoomState) list"
  loading :: "(nat \<times> string) list"
  awaiting :: "(sock \<times> string \<times> nat) list"
  attached :: "(sock \<times> string \<times> nat) list"
  persisting :: "(nat \<times> string) list"
  timers :: "(nat \<times> nat \<times> timer_cb) list"
  ready :: "(sock \<times> ready_state) list"
  now :: nat
  next_id :: nat
  constructed :: "(string \<times> nat) list"
  destroyed :: "nat list"
  persist_calls :: "(string \<times> nat) list"
  sent :: frames

definition init_engine :: Engine where
  "init_engine =
     \<lparr> roomStates = [], pendingRooms = [], heap = [], loading = [], awaiting = [],
       attached = [], persisting = [], timers = [], ready = [], now = 0, next_id = 0,
       constructed = [], destroyed = [], persist_calls = [], sent = [] \<rparr>"

definition ready_of :: "Engine \<Rightarrow> sock \<Rightarrow> ready_state" where
  "ready_of e ws = (case map_of (ready e) ws of None \<Rightarrow> CLOSED | Some r \<Rightarrow> r)"

definition clearTimeout :: "nat \<Rightarrow> Engine \<Rightarrow> Engine" where
  "clearTimeout h e = e\<lparr>timers := AList.delete h (timers e)\<rparr>"

text \<open>\<open>createRoom\<close> up to \<open>await p.loadDoc\<close>: the replica and the awareness object
  are constructed; the call is suspended.\<close>

definition createRoom :: "string \<Rightarrow> Engine \<Rightarrow> nat \<times> Engine" where
  "createRoom roomId e =
     (let pid = next_id e
      in (pid, e\<lparr>next_id := Suc pid,
                 constructed := constructed e @ [(roomId, pid)],
                 loading := AList.update pid roomId (loading e)\<rparr>))"

text \<open>\<open>getOrCreateRoom\<close>.  The result is the existing state, or the promise of a
  creation in flight.\<close>

datatype room_promise = Existing nat | Promise nat

definition getOrCreateRoom :: "string \<Rightarrow> Engine \<Rightarrow> room_promise \<times> Engine" where
  "getOrCreateRoom roomId e =
     (case map_of (roomStates e) roomId of
        Some existing \<Rightarrow>
          (case map_of (heap e) existing of
             None \<Rightarrow> (Existing existing, e)
           | Some state \<Rightarrow>
               (case cleanupTimer state of
                  None \<Rightarrow> (Existing existing, e)
                | Some h \<Rightarrow>
                    (Existing existing,
                     (clearTimeout h e)\<lparr>heap :=
                        AList.update existing (state\<lparr>cleanupTimer := None\<rparr>) (heap e)\<rparr>)))
      | None \<Rightarrow>
          (case map_of (pendingRooms e) roomId of
             Some pending \<Rightarrow> (Promise pending, e)
           | None \<Rightarrow>
               (let (pid, e1) = createRoom roomId e
                in (Promise pid,
                    e1\<lparr>pendingRooms := AList.update roomId pid (pendingRooms e1)\<rparr>))))"

text \<open>The \<open>connection\<close> handler after its \<open>await\<close>: the socket joins the state's
  clients, is sent the step-1 query and the known awareness states, and its
  \<open>message\<close> and \<open>close\<close> handlers are registered.\<close>

definition attach :: "sock \<Rightarrow> string \<Rightarrow> nat \<Rightarrow> Engine \<Rightarrow> Engine" where
  "attach ws roomId ref e =
     (case map_of (heap e) ref of
        None \<Rightarrow> e
      | Some state \<Rightarrow>
          (let state1 = state\<lparr>clients_set := set_add ws (clients_set state)\<rparr>
           in e\<lparr>heap := AList.update ref state1 (heap e),
                attached := AList.update ws (roomId, ref) (attached e),
                sent := sent e @ sendSyncStep1 (ready_of e) ws
                          @ sendAwarenessState (ready_of e) ws (awareness state1)\<rparr>))"

text \<open>A \<open>connection\<close> event: the gateway hands over a new, open socket for
  \<open>roomId\<close>.  With an existing state the handler resumes in the same turn of the
  event loop; otherwise it waits for the promise.\<close>

definition on_connect :: "string \<Rightarrow> Engine \<Rightarrow> Engine" where
  "on_connect roomId e =
     (let ws = next_id e;
          e0 = e\<lparr>next_id := Suc ws, ready := AList.update ws OPEN (ready e)\<rparr>;
          (res, e1) = getOrCreateRoom roomId e0
      in case res of
           Existing ref \<Rightarrow> attach ws roomId ref e1
         | Promise pid \<Rightarrow> e1\<lparr>awaiting := awaiting e1 @ [(ws, roomId, pid)]\<rparr>)"

text \<open>\<open>createRoom\<close> after \<open>p.loadDoc\<close> has resolved: the state object is built
  and stored, the pending entry deleted, and every connection handler that
  awaited the promise resumes, in the order of their calls.  The awareness
  object of a new replica holds the server's own entry, under the replica's
  client id, for which the replica's number stands.\<close>

definition new_state :: "nat \<Rightarrow> RoomState" where
  "new_state pid =
     \<lparr> doc = pid, awareness = [(pid, ''{}'')], clients_set = [],
       clientAwarenessIds = [], cleanupTimer = None, persistTimer = None \<rparr>"

fun resume_waiters :: "(sock \<times> string \<times> nat) list \<Rightarrow> nat \<Rightarrow> Engine \<Rightarrow> Engine" where
  "resume_waiters [] pid e = e"
| "resume_waiters ((ws, roomId, p) # rest) pid e =
     (if p = pid then resume_waiters rest pid (attach ws roomId pid e)
      else resume_waiters rest pid e)"

definition on_load_done :: "nat \<Rightarrow> Engine \<Rightarrow> Engine" where
  "on_load_done pid e =
     (case map_of (loading e) pid of
        None \<Rightarrow> e
      | Some roomId \<Rightarrow>
          (let e1 = e\<lparr>heap := AList.update pid (new_state pid) (heap e),
                       roomStates := AList.update roomId pid (roomStates e),
                       pendingRooms := AList.delete roomId (pendingRooms e),
                       loading := AList.delete pid (loading e)\<rparr>;
               waiters = awaiting e1;
               e2 = e1\<lparr>awaiting := filter (\<lambda>(ws, roomId, p). p \<noteq> pid) waiters\<rparr>
           in resume_waiters waiters pid e2))"

text \<open>\<open>p.loadDoc\<close> rejects: the \<open>catch\<close> of \<open>getOrCreateRoom\<close> deletes the pending
  entry and every awaiting connection handler is rejected.\<close>

definition on_load_failed :: "nat \<Rightarrow> Engine \<Rightarrow> Engine" where
  "on_load_failed pid e =
     (case map_of (loading e) pid of
        None \<Rightarrow> e
      | Some roomId \<Rightarrow>
          e\<lparr>pendingRooms := AList.delete roomId (pendingRooms e),
            loading := AList.delete pid (loading e),
            awaiting := filter (\<lambda>(ws, roomId, p). p \<noteq> pid) (awaiting e)\<rparr>)"

text \<open>The \<open>update\<close> handler of the replica: fan out, then replace the persist
  timer.\<close>

definition on_doc_update :: "string \<Rightarrow> nat \<Rightarrow> bytes \<Rightarrow> sock option \<Rightarrow> Engine \<Rightarrow> Engine" where
  "on_doc_update roomId ref update origin e =
     (case map_of (heap e) ref of
        None \<Rightarrow> e
      | Some state \<Rightarrow>
          (let out = doc_update_fanout (ready_of e) state update origin;
               e1 = (case persistTimer state of None \<Rightarrow> e | Some h \<Rightarrow> clearTimeout h e);
               h = next_id e1
           in e1\<lparr>next_id := Suc h,
                 sent := sent e1 @ out,
                 timers := timers e1 @ [(h, now e1 + 5000, PersistCb roomId ref)],
                 heap := AList.update ref (state\<lparr>persistTimer := Some h\<rparr>) (heap e1)\<rparr>))"

text \<open>
  \<open>handleMessage\<close>.  What the protocol library does with the body of a sync or
  awareness frame is a parameter of the call: it throws, or \<open>readSyncMessage\<close>
  writes a reply (possibly empty) and possibly applies an update to the
  replica, or \<open>applyAwarenessUpdate\<close> leaves new awareness states and possibly
  emits \<open>update\<close> with the ids it added, updated and removed.  An exception is
  caught and logged by the caller.
\<close>

datatype lib_result =
    LibThrows
  | SyncRead bytes "bytes option"
  | AwarenessApplied "(nat \<times> string) list" "(nat list \<times> nat list \<times> nat list) option"

definition handleMessage :: "sock \<Rightarrow> string \<Rightarrow> nat \<Rightarrow> bytes \<Rightarrow> lib_result \<Rightarrow> Engine \<Rightarrow> Engine" where
  "handleMessage ws roomId ref data lib e =
     (case readVarUint data of
        Inl err \<Rightarrow> e
      | Inr (msgType, body) \<Rightarrow>
          if msgType = messageSync then
            (case lib of
               SyncRead reply applied \<Rightarrow>
                 (let e1 = (case applied of
                              None \<Rightarrow> e
                            | Some update \<Rightarrow> on_doc_update roomId ref update (Some ws) e)
                  in if length reply > 0
                     then e1\<lparr>sent := sent e1 @ ws_send (ready_of e1) ws (SyncReply reply)\<rparr>
                     else e1)
             | _ \<Rightarrow> e)
          else if msgType = messageAwareness then
            (case lib of
               AwarenessApplied states change \<Rightarrow>
                 (case map_of (heap e) ref of
                    None \<Rightarrow> e
                  | Some state \<Rightarrow>
                      (let state1 = state\<lparr>awareness := states\<rparr>;
                           (state2, out) =
                             (case change of
                                None \<Rightarrow> (state1, [])
                              | Some (added, updated, removed) \<Rightarrow>
                                  awareness_update_handler (ready_of e) state1
                                    added updated removed (Some ws))
                       in e\<lparr>heap := AList.update ref state2 (heap e), sent := sent e @ out\<rparr>))
             | _ \<Rightarrow> e)
          else if msgType = messageFileOp then
            (case map_of (heap e) ref of
               None \<Rightarrow> e
             | Some state \<Rightarrow>
                 e\<lparr>sent := sent e @ fanout_others (ready_of e) (clients_set state) (Some ws)
                                      (Relayed data)\<rparr>)
          else e)"

text \<open>A \<open>message\<close> event of a socket whose handlers are registered.\<close>

definition on_frame :: "sock \<Rightarrow> bytes \<Rightarrow> lib_result \<Rightarrow> Engine \<Rightarrow> Engine" where
  "on_frame ws data lib e =
     (case map_of (attached e) ws of
        None \<Rightarrow> e
      | Some (roomId, ref) \<Rightarrow> handleMessage ws roomId ref data lib e)"

text \<open>A \<open>close\<close> event.  A socket whose connection handler still awaits its room
  has no \<open>close\<close> handler yet: the event changes the socket only.  Otherwise the
  handler runs and, when no client is left, starts the idle timer.\<close>

definition on_ws_close :: "sock \<Rightarrow> Engine \<Rightarrow> Engine" where
  "on_ws_close ws e =
     (let e0 = e\<lparr>ready := AList.update ws CLOSED (ready e)\<rparr>
      in case map_of (attached e0) ws of
           None \<Rightarrow> e0
         | Some (roomId, ref) \<Rightarrow>
             (case map_of (heap e0) ref of
                None \<Rightarrow> e0
              | Some state \<Rightarrow>
                  (let (state1, out) = ws_close_handler (ready_of e0) ws state;
                       e1 = e0\<lparr>sent := sent e0 @ out,
                                attached := AList.delete ws (attached e0)\<rparr>
                   in if length (clients_set state1) = 0
                      then (let h = next_id e1
                            in e1\<lparr>next_id := Suc h,
                                  timers := timers e1 @ [(h, now e1 + 30000, CleanupCb roomId ref)],
                                  heap := AList.update ref (state1\<lparr>cleanupTimer := Some h\<rparr>)
                                            (heap e1)\<rparr>)
                      else e1\<lparr>heap := AList.update ref state1 (heap e1)\<rparr>)))"

text \<open>\<open>cleanupRoom\<close> up to \<open>await p.persistDoc\<close>, and after it.\<close>

definition cleanupRoom :: "string \<Rightarrow> nat \<Rightarrow> Engine \<Rightarrow> Engine" where
  "cleanupRoom roomId ref e =
     (case map_of (heap e) ref of
        None \<Rightarrow> e
      | Some state \<Rightarrow>
          (let e1 = (case persistTimer state of None \<Rightarrow> e | Some h \<Rightarrow> clearTimeout h e)
           in e1\<lparr>persist_calls := persist_calls e1 @ [(roomId, doc state)],
                 persisting := persisting e1 @ [(ref, roomId)]\<rparr>))"

definition cleanupRoom_resume :: "string \<Rightarrow> nat \<Rightarrow> Engine \<Rightarrow> Engine" where
  "cleanupRoom_resume roomId ref e =
     (case map_of (heap e) ref of
        None \<Rightarrow> e
      | Some state \<Rightarrow>
          (let (state1, out) =
                 removeAwarenessStates (ready_of e) state (map fst (awareness state))
           in e\<lparr>sent := sent e @ out,
                heap := AList.update ref state1 (heap e),
                destroyed := destroyed e @ [doc state1],
                roomStates := AList.delete roomId (roomStates e)\<rparr>))"

text \<open>A timer fires when it is pending and due.  The idle timer's callback
  looks at the number of clients again; the persist timer's callback calls
  \<open>p.persistDoc\<close> and does not wait for it.\<close>

definition on_timer :: "nat \<Rightarrow> Engine \<Rightarrow> Engine" where
  "on_timer h e =
     (case map_of (timers e) h of
        None \<Rightarrow> e
      | Some (due, cb) \<Rightarrow>
          if now e < due then e
          else (let e0 = clearTimeout h e
                in case cb of
                     CleanupCb roomId ref \<Rightarrow>
                       (case map_of (heap e0) ref of
                          None \<Rightarrow> e0
                        | Some state \<Rightarrow>
                            if length (clients_set state) = 0 then cleanupRoom roomId ref e0
                            else e0)
                   | PersistCb roomId ref \<Rightarrow>
                       (case map_of (heap e0) ref of
                          None \<Rightarrow> e0
                        | Some state \<Rightarrow>
                            e0\<lparr>persist_calls := persist_calls e0 @ [(roomId, doc state)]\<rparr>)))"

definition on_persist_done :: "nat \<Rightarrow> Engine \<Rightarrow> Engine" where
  "on_persist_done ref e =
     (case map_of (persisting e) ref of
        None \<Rightarrow> e
      | Some roomId \<Rightarrow>
          cleanupRoom_resume roomId ref (e\<lparr>persisting := remove1 (ref, roomId) (persisting e)\<rparr>))"

definition on_persist_failed :: "nat \<Rightarrow> Engine \<Rightarrow> Engine" where
  "on_persist_failed ref e =
     (case map_of (persisting e) ref of
        None \<Rightarrow> e
      | Some roomId \<Rightarrow> e\<lparr>persisting := remove1 (ref, roomId) (persisting e)\<rparr>)"

text \<open>The events of a run, and the run itself.\<close>

datatype event =
    Connect string
  | LoadDone nat
  | LoadFailed nat
  | Frame sock bytes lib_result
  | Close sock
  | Tick nat
  | TimerFire nat
  | PersistDone nat
  | PersistFailed nat

fun step :: "Engine \<Rightarrow> event \<Rightarrow> Engine" where
  "step e (Connect roomId) = on_connect roomId e"
| "step e (LoadDone pid) = on_load_done pid e"
| "step e (LoadFailed pid) = on_load_failed pid e"
| "step e (Frame ws data lib) = on_frame ws data lib e"
| "step e (Close ws) = on_ws_close ws e"
| "step e (Tick d) = e\<lparr>now := now e + d\<rparr>"
| "step e (TimerFire h) = on_timer h e"
| "step e (PersistDone ref) = on_persist_done ref e"
| "step e (PersistFailed ref) = on_persist_failed ref e"

definition run :: "Engine \<Rightarrow> event list \<Rightarrow> Engine" where
  "run e evs = foldl step e evs"

section \<open>Connection gateway (index)\<close>

text \<open>
  \<open>Buffer.from(s)\<close>: the UTF-8 encoding of a string of UTF-16 code units.  A
  surrogate pair is one code point of four bytes; a surrogate on its own is
  replaced by U+FFFD.
\<close>

definition is_high_surrogate :: "16 word \<Rightarrow> bool" where
  "is_high_surrogate u = (55296 \<le> unat u \<and> unat u \<le> 56319)"

definition is_low_surrogate :: "16 word \<Rightarrow> bool" where
  "is_low_surrogate u = (56320 \<le> unat u \<and> unat u \<le> 57343)"

definition utf8_code_point :: "nat \<Rightarrow> bytes" where
  "utf8_code_point c =
     (if c < 128 then [of_nat c]
      else if c < 2048 then [of_nat (192 + c div 64), of_nat (128 + c mod 64)]
      else if c < 65536 then
        [of_nat (224 + c div 4096), of_nat (128 + (c div 64) mod 64), of_nat (128 + c mod 64)]
      else
        [of_nat (240 + c div 262144), of_nat (128 + (c div 4096) mod 64),
         of_nat (128 + (c div 64) mod 64), of_nat (128 + c mod 64)])"

fun utf8_encode :: "jsstring \<Rightarrow> bytes" where
  "utf8_encode [] = []"
| "utf8_encode [u] =
     (if is_high_surrogate u \<or> is_low_surrogate u then utf8_code_point 65533
      else utf8_code_point (unat u))"
| "utf8_encode (u # v # rest) =
     (if is_high_surrogate u \<and> is_low_surrogate v
      then utf8_code_point (65536 + (unat u - 55296) * 1024 + (unat v - 56320)) @ utf8_encode rest
      else if is_high_surrogate u \<or> is_low_surrogate u
      then utf8_code_point 65533 @ utf8_encode (v # rest)
      else utf8_code_point (unat u) @ utf8_encode (v # rest))"

text \<open>\<open>crypto.timingSafeEqual\<close> throws on buffers of different byte lengths.\<close>

datatype crypto_error = ERR_CRYPTO_TIMING_SAFE_EQUAL_LENGTH

definition timingSafeEqual :: "bytes \<Rightarrow> bytes \<Rightarrow> crypto_error + bool" where
  "timingSafeEqual a b =
     (if length a \<noteq> length b then Inl ERR_CRYPTO_TIMING_SAFE_EQUAL_LENGTH else Inr (a = b))"

definition safeTokenCompare :: "jsstring \<Rightarrow> jsstring \<Rightarrow> crypto_error + bool" where
  "safeTokenCompare a b =
     (if length a \<noteq> length b then Inr False
      else timingSafeEqual (utf8_encode a) (utf8_encode b))"

text \<open>
  The parts of the parsed request URL the handler reads: \<open>url.pathname\<close> and the
  query parameters \<open>token\<close> and \<open>jwt\<close> (\<open>None\<close> where \<open>searchParams.get\<close> gives
  \<open>null\<close>).  A path name is ASCII, a query parameter is percent-decoded and so
  any string.
\<close>

record upgrade_url =
  pathname :: string
  token_param :: "jsstring option"
  jwt_param :: "jsstring option"

text \<open>\<open>pathname.match(/^prefix(.+)$/)\<close>: the group is the rest of the path, not
  empty and free of line terminators (which \<open>.\<close> does not match).\<close>

definition match_route :: "string \<Rightarrow> string \<Rightarrow> string option" where
  "match_route prefix path =
     (let rest = drop (length prefix) path
      in if take (length prefix) path = prefix \<and> rest \<noteq> []
            \<and> CHR 0x0A \<notin> set rest \<and> CHR 0x0D \<notin> set rest
         then Some rest else None)"

text \<open>\<open>fullRoomName.split(":")[0]\<close>.\<close>

definition baseRoomId :: "string \<Rightarrow> string" where
  "baseRoomId fullRoomName = takeWhile (\<lambda>c. c \<noteq> CHR '':'') fullRoomName"

datatype upgrade_result =
    Destroyed
  | HandedToYjs string
  | HandedToControl string
  | Threw crypto_error

text \<open>
  The \<open>upgrade\<close> handler.  \<open>require_auth\<close> is \<open>REQUIRE_GITHUB_AUTH\<close>, \<open>verifyJWT\<close>
  says whether the identity verifier returns a payload, \<open>rooms\<close> is the room
  registry behind \<open>getRoom\<close>.  An exception of \<open>safeTokenCompare\<close> is not caught
  by the handler.
\<close>

definition upgrade ::
  "bool \<Rightarrow> (jsstring \<Rightarrow> bool) \<Rightarrow> (string \<times> Room) list \<Rightarrow> upgrade_url \<Rightarrow> upgrade_result" where
  "upgrade require_auth verifyJWT rooms url =
     (case match_route ''/ws/'' (pathname url) of
        Some fullRoomName \<Rightarrow>
          (case map_of rooms (baseRoomId fullRoomName) of
             None \<Rightarrow> Destroyed
           | Some room \<Rightarrow>
               (case token_param url of
                  None \<Rightarrow> Destroyed
                | Some tok \<Rightarrow>
                    if tok = [] then Destroyed
                    else (case safeTokenCompare tok (token room) of
                            Inl err \<Rightarrow> Threw err
                          | Inr eq \<Rightarrow>
                              if \<not> eq then Destroyed
                              else if require_auth then
                                (case jwt_param url of
                                   None \<Rightarrow> Destroyed
                                 | Some jwtToken \<Rightarrow>
                                     if jwtToken = [] \<or> \<not> verifyJWT jwtToken then Destroyed
                                     else HandedToYjs fullRoomName)
                              else HandedToYjs fullRoomName)))
      | None \<Rightarrow>
          (case match_route ''/control/'' (pathname url) of
             Some roomId \<Rightarrow>
               (case map_of rooms roomId of
                  None \<Rightarrow> Destroyed
                | Some room \<Rightarrow>
                    (case token_param url of
                       None \<Rightarrow> Destroyed
                     | Some tok \<Rightarrow>
                         if tok = [] then Destroyed
                         else (case safeTokenCompare tok (token room) of
                                 Inl err \<Rightarrow> Threw err
                               | Inr eq \<Rightarrow>
                                   if \<not> eq then Destroyed
                                   else if require_auth then
                                     (case jwt_param url of
                                        None \<Rightarrow> Destroyed
                                      | Some jwtToken \<Rightarrow>
                                          if jwtToken = [] \<or> \<not> verifyJWT jwtToken then Destroyed
                                          else HandedToControl roomId)
                                   else HandedToControl roomId)))
           | None \<Rightarrow> Destroyed))"

section \<open>Persistence store (persistence)\<close>

text \<open>
  The key-value store is a map from keys to byte strings; \<open>db.get\<close> of a
  missing key throws an error with the code \<open>LEVEL_NOT_FOUND\<close>.  Input and
  output failures of the store are outside the model.  The replica is a value
  of any type \<open>'d\<close>; the two operations of the CRDT library that the store
  uses are parameters: \<open>encodeStateAsUpdate\<close>, and \<open>applyUpdate\<close>, which gives
  the replica after the call and the error it threw, if any.
\<close>

type_synonym leveldb = "(string \<times> bytes) list"

datatype js_error = ErrorWithCode string | ErrorWithoutCode

definition db_get :: "leveldb \<Rightarrow> string \<Rightarrow> js_error + bytes" where
  "db_get db key =
     (case map_of db key of None \<Rightarrow> Inl (ErrorWithCode ''LEVEL_NOT_FOUND'') | Some v \<Rightarrow> Inr v)"

definition db_put :: "leveldb \<Rightarrow> string \<Rightarrow> bytes \<Rightarrow> leveldb" where
  "db_put db key v = AList.update key v db"

definition loadDoc ::
  "('d \<Rightarrow> bytes \<Rightarrow> 'd \<times> js_error option) \<Rightarrow> leveldb \<Rightarrow> string \<Rightarrow> 'd \<Rightarrow> js_error + 'd" where
  "loadDoc applyUpdate db docName d =
     (case db_get db (''doc:'' @ docName) of
        Inl err \<Rightarrow> (if err = ErrorWithCode ''LEVEL_NOT_FOUND'' then Inr d else Inl err)
      | Inr stored \<Rightarrow>
          (case applyUpdate d stored of
             (d', None) \<Rightarrow> Inr d'
           | (d', Some err) \<Rightarrow>
               if err = ErrorWithCode ''LEVEL_NOT_FOUND'' then Inr d' else Inl err))"

definition persistDoc :: "('d \<Rightarrow> bytes) \<Rightarrow> leveldb \<Rightarrow> string \<Rightarrow> 'd \<Rightarrow> leveldb" where
  "persistDoc encodeStateAsUpdate db docName d =
     db_put db (''doc:'' @ docName) (encodeStateAsUpdate d)"

subsection \<open>Runs of first connections and their invariant\<close>

text \<open>
  \<open>constructions roomId e\<close> lists the replicas constructed under the name
  \<open>roomId\<close>; \<open>callers roomId e\<close> lists the sockets whose connection handler
  called \<open>getOrCreateRoom roomId\<close>, each with the state it resolved to or the
  promise it awaits; \<open>resolved roomId e\<close> lists those of them whose call has
  returned, each with the state object it was given.  A run of first
  connections consists of \<open>connection\<close> events and completions of \<open>p.loadDoc\<close>.
\<close>

definition constructions :: "string \<Rightarrow> Engine \<Rightarrow> nat list" where
  "constructions roomId e = map snd (filter (\<lambda>(r, pid). r = roomId) (constructed e))"

definition callers :: "string \<Rightarrow> Engine \<Rightarrow> (sock \<times> nat) list" where
  "callers roomId e =
     map (\<lambda>(ws, r, p). (ws, p)) (filter (\<lambda>(ws, r, p). r = roomId) (attached e @ awaiting e))"

definition resolved :: "string \<Rightarrow> Engine \<Rightarrow> (sock \<times> nat) list" where
  "resolved roomId e =
     map (\<lambda>(ws, r, p). (ws, p)) (filter (\<lambda>(ws, r, p). r = roomId) (attached e))"

fun first_connect_event :: "event \<Rightarrow> bool" where
  "first_connect_event (Connect roomId) = True"
| "first_connect_event (LoadDone pid) = True"
| "first_connect_event ev = False"

text \<open>
  The invariant of such runs: a name has constructions exactly for its stored
  state or its pending promise; a suspended \<open>createRoom\<close> call and its pending
  entry belong together; a stored state exists in the heap; attached sockets
  hold the stored state and waiting sockets the pending promise; socket numbers
  are below the allocation counter and pairwise different.
\<close>

definition inv_constructions :: "Engine \<Rightarrow> bool" where
  "inv_constructions e \<longleftrightarrow>
     (\<forall>n. constructions n e =
        (case map_of (roomStates e) n of
           Some r \<Rightarrow> [r]
         | None \<Rightarrow> (case map_of (pendingRooms e) n of Some p \<Rightarrow> [p] | None \<Rightarrow> [])))"

definition inv_loading :: "Engine \<Rightarrow> bool" where
  "inv_loading e \<longleftrightarrow>
     (\<forall>p n. map_of (loading e) p = Some n \<longrightarrow>
          map_of (pendingRooms e) n = Some p \<and> map_of (roomStates e) n = None)"

definition inv_pending :: "Engine \<Rightarrow> bool" where
  "inv_pending e \<longleftrightarrow>
     (\<forall>n p. map_of (pendingRooms e) n = Some p \<longrightarrow>
          map_of (loading e) p = Some n \<and> p < next_id e)"

definition inv_heap :: "Engine \<Rightarrow> bool" where
  "inv_heap e \<longleftrightarrow>
     (\<forall>n r. map_of (roomStates e) n = Some r \<longrightarrow> r \<in> fst ` set (heap e))"

definition inv_attached :: "Engine \<Rightarrow> bool" where
  "inv_attached e \<longleftrightarrow>
     (\<forall>ws n r. (ws, n, r) \<in> set (attached e) \<longrightarrow> map_of (roomStates e) n = Some r)"

definition inv_awaiting :: "Engine \<Rightarrow> bool" where
  "inv_awaiting e \<longleftrightarrow>
     (\<forall>ws n p. (ws, n, p) \<in> set (awaiting e) \<longrightarrow> map_of (pendingRooms e) n = Some p)"

definition inv_sockets :: "Engine \<Rightarrow> bool" where
  "inv_sockets e \<longleftrightarrow>
     (\<forall>ws. ws \<in> fst ` set (attached e) \<union> fst ` set (awaiting e) \<longrightarrow> ws < next_id e)
     \<and> distinct (map fst (attached e @ awaiting e))"

definition fc_inv :: "Engine \<Rightarrow> bool" where
  "fc_inv e \<longleftrightarrow>
     inv_constructions e \<and> inv_loading e \<and> inv_pending e \<and> inv_heap e
     \<and> inv_attached e \<and> inv_awaiting e \<and> inv_sockets e"

definition known :: "string \<Rightarrow> Engine \<Rightarrow> bool" where
  "known n e \<longleftrightarrow> map_of (roomStates e) n \<noteq> None \<or> map_of (pendingRooms e) n \<noteq> None"

section \<open>Vocabulary of the statements\<close>

subsection \<open>Control channel\<close>

text \<open>Messages of one control room handled one after another; the first
  exception ends the run.\<close>

fun handle_all ::
  "Room option \<Rightarrow> ControlRoom \<Rightarrow> (sock \<times> string \<times> parsed) list \<Rightarrow> handler_error + ControlRoom" where
  "handle_all serverRoom room [] = Inr room"
| "handle_all serverRoom room ((ws, data, p) # rest) =
     (case on_message serverRoom ws data p room of
        Inl err \<Rightarrow> Inl err
      | Inr (room', out) \<Rightarrow> handle_all serverRoom room' rest)"

text \<open>
  When a message of a client reaches the final \<open>broadcast(room, data, ws)\<close> of
  the handler: its type is allowed, it is none of the messages a branch above
  handles and returns from (a \<open>join-request\<close>; a \<open>join-response\<close> or \<open>kick\<close> of
  the host; a \<open>file-op\<close> of a read-only client; a \<open>summon\<close> with a target other
  than \<open>__all__\<close>), and the client is approved.  A \<open>summon\<close> with such a
  target is routed to the sockets of one user instead.
\<close>

definition targeted_summon :: "parsed \<Rightarrow> bool" where
  "targeted_summon p =
     (case p of
        ParsedValue msg \<Rightarrow>
          m_type msg = Some ''summon'' \<and> m_targetUserId msg \<noteq> Some ''__all__''
      | _ \<Rightarrow> False)"

definition reaches_broadcast :: "parsed \<Rightarrow> ControlClient \<Rightarrow> bool" where
  "reaches_broadcast p client =
     (case p of
        ParsedValue msg \<Rightarrow>
          (case m_type msg of
             None \<Rightarrow> False
           | Some t \<Rightarrow>
               t \<in> set ALLOWED_TYPES \<and> t \<noteq> ''join-request''
               \<and> (t = ''join-response'' \<or> t = ''kick'' \<longrightarrow> \<not> isHost client)
               \<and> (t = ''file-op'' \<longrightarrow> permission client \<noteq> ''read-only'')
               \<and> approved client \<and> \<not> targeted_summon p)
      | _ \<Rightarrow> False)"

text \<open>Concrete rooms, clients and messages.\<close>

definition ex_member :: "string \<Rightarrow> bool \<Rightarrow> bool \<Rightarrow> string \<Rightarrow> ControlClient" where
  "ex_member uid host appr perm =
     \<lparr> userId = uid, displayName = uid, isHost = host, approved = appr,
       permission = perm, readyState = OPEN \<rparr>"

definition ex_msg :: "string \<Rightarrow> string option \<Rightarrow> ControlMsg" where
  "ex_msg t uid =
     \<lparr> m_type = Some t, m_userId = uid, m_displayName = None, m_avatarUrl = None,
       m_approved = True, m_permission = Some ''read-write'', m_targetUserId = None \<rparr>"

definition ex_meta :: "string option \<Rightarrow> bool option \<Rightarrow> string option \<Rightarrow> Room" where
  "ex_meta host appr perm =
     \<lparr> room_id = ''V1StGXR8_Z5j'', token = replicate 24 97, room_name = ''demo'',
       createdAt = 0, hostUserId = host, requireApproval = appr, defaultPermission = perm \<rparr>"

definition ex_room :: ControlRoom where
  "ex_room =
     \<lparr> clients = [(1, ex_member ''host-1'' True True ''read-write''),
                  (2, ex_member ''guest-1'' False True ''read-write''),
                  (3, ex_member ''guest-2'' False True ''read-only'')],
       pendingApprovals = [] \<rparr>"

definition ex_host_room :: ControlRoom where
  "ex_host_room =
     \<lparr> clients = [(1, ex_member ''host-1'' True True ''read-write'')],
       pendingApprovals = [] \<rparr>"

definition empty_room :: ControlRoom where
  "empty_room = \<lparr> clients = [], pendingApprovals = [] \<rparr>"

subsection \<open>CRDT channel\<close>

text \<open>
  The events that change the awareness bookkeeping of one document: the
  awareness object emits \<open>update\<close>, after the protocol library has brought its
  states to \<open>states\<close>, with the ids added, updated and removed, and the origin (a
  socket, or \<open>None\<close> for the library's own timers); a socket of the document
  closes.  \<open>announced S evs\<close> collects the ids of the added and updated lists of
  the updates that originate from the socket \<open>S\<close>.
\<close>

datatype doc_event =
    AwarenessUpdate "(nat \<times> string) list" "nat list" "nat list" "nat list" "sock option"
  | SocketClosed sock

fun doc_step :: "(sock \<Rightarrow> ready_state) \<Rightarrow> RoomState \<Rightarrow> doc_event \<Rightarrow> RoomState" where
  "doc_step rs state (AwarenessUpdate states added updated removed origin) =
     fst (awareness_update_handler rs (state\<lparr>awareness := states\<rparr>) added updated removed origin)"
| "doc_step rs state (SocketClosed ws) = fst (ws_close_handler rs ws state)"

fun announced :: "sock \<Rightarrow> doc_event list \<Rightarrow> nat list" where
  "announced S [] = []"
| "announced S (AwarenessUpdate states added updated removed origin # evs) =
     (if origin = Some S then added @ updated else []) @ announced S evs"
| "announced S (SocketClosed ws # evs) = announced S evs"

definition tracked :: "sock \<Rightarrow> RoomState \<Rightarrow> nat set" where
  "tracked S state =
     (case map_of (clientAwarenessIds state) S of None \<Rightarrow> {} | Some ids \<Rightarrow> set ids)"

text \<open>A document with two clients, and every socket open.\<close>

definition ex_state :: RoomState where
  "ex_state = (new_state 1)\<lparr>clients_set := [0, 2]\<rparr>"

definition all_open :: "sock \<Rightarrow> ready_state" where
  "all_open ws = OPEN"

subsection \<open>Gateway and store\<close>

text \<open>A room whose token is 24 letters, a request token of the same length
  with one letter outside ASCII, and the registry holding the room.\<close>

definition ex_registry :: "(string \<times> Room) list" where
  "ex_registry = [(''V1StGXR8_Z5j'', ex_meta None None None)]"

definition ex_bad_token :: jsstring where
  "ex_bad_token = replicate 23 97 @ [233]"

text \<open>A replica that is the list of bytes applied to it, for which encoding
  and applying are the identity and the append.\<close>

definition log_encode :: "bytes \<Rightarrow> bytes" where
  "log_encode d = d"

definition log_apply :: "bytes \<Rightarrow> bytes \<Rightarrow> bytes \<times> js_error option" where
  "log_apply d u = (d @ u, None)"

section \<open>At most one creator (ws-handler)\<close>

subsection \<open>Association lists\<close>

lemma update_fresh: "k \<notin> fst ` set l \<Longrightarrow> AList.update k v l = l @ [(k, v)]"
  by (induction l) auto

lemma keys_update: "fst ` set (AList.update k v l) = insert k (fst ` set l)"
  by (induction l) auto

lemma map_of_Some_key: "map_of l k = Some v \<Longrightarrow> k \<in> fst ` set l"
  by (metis map_of_eq_None_iff option.distinct(1))

lemma distinct_fst_partition:
  "distinct (map fst (xs @ ys)) \<Longrightarrow>
   distinct (map fst ((xs @ filter P ys) @ filter (\<lambda>x. \<not> P x) ys))"
  by (induction ys arbitrary: xs) (auto simp: distinct_map_filter image_iff)

lemma length_filter_partition:
  "length (filter Q (filter P ys)) + length (filter Q (filter (\<lambda>x. \<not> P x) ys))
     = length (filter Q ys)"
  by (induction ys) auto

subsection \<open>The handlers, field by field\<close>

text \<open>Joining a state and resuming the waiting connection handlers touch the
  heap, the attached sockets and the frames sent, and nothing else.\<close>

lemma attach_fields:
  "roomStates (attach ws n r e) = roomStates e"
  "pendingRooms (attach ws n r e) = pendingRooms e"
  "loading (attach ws n r e) = loading e"
  "awaiting (attach ws n r e) = awaiting e"
  "constructed (attach ws n r e) = constructed e"
  "next_id (attach ws n r e) = next_id e"
  by (auto simp: attach_def Let_def split: option.splits)

lemma attach_heap: "fst ` set (heap (attach ws n r e)) = fst ` set (heap e)"
  by (auto simp: attach_def Let_def keys_update dest: map_of_Some_key split: option.splits)

lemma attach_attached:
  "r \<in> fst ` set (heap e) \<Longrightarrow> attached (attach ws n r e) = AList.update ws (n, r) (attached e)"
  by (auto simp: attach_def Let_def map_of_eq_None_iff split: option.splits)

lemma resume_fields:
  "roomStates (resume_waiters ws pid e) = roomStates e"
  "pendingRooms (resume_waiters ws pid e) = pendingRooms e"
  "loading (resume_waiters ws pid e) = loading e"
  "awaiting (resume_waiters ws pid e) = awaiting e"
  "constructed (resume_waiters ws pid e) = constructed e"
  "next_id (resume_waiters ws pid e) = next_id e"
  "fst ` set (heap (resume_waiters ws pid e)) = fst ` set (heap e)"
  by (induction ws pid e rule: resume_waiters.induct) (auto simp: attach_fields attach_heap)

lemma resume_attached:
  "pid \<in> fst ` set (heap e) \<Longrightarrow> distinct (map fst waiters) \<Longrightarrow>
   fst ` set waiters \<inter> fst ` set (attached e) = {} \<Longrightarrow>
   attached (resume_waiters waiters pid e) =
     attached e @ filter (\<lambda>(ws, n, p). p = pid) waiters"
proof (induction waiters pid e rule: resume_waiters.induct)
  case (1 pid e)
  then show ?case by simp
next
  case (2 ws roomId p rest pid e)
  show ?case
  proof (cases "p = pid")
    case True
    have h: "pid \<in> fst ` set (heap (attach ws roomId pid e))"
      using 2 by (simp add: attach_heap)
    have a: "attached (attach ws roomId pid e) = attached e @ [(ws, roomId, pid)]"
      using 2 by (simp add: attach_attached update_fresh)
    have d: "fst ` set rest \<inter> fst ` set (attached (attach ws roomId pid e)) = {}"
      using 2 a by auto
    show ?thesis using True 2 h a d by simp
  next
    case False
    then show ?thesis using 2 by auto
  qed
qed

text \<open>A \<open>connection\<close> event in its three cases: the state exists, a creation is
  pending, or neither.\<close>

lemma getOrCreateRoom_existing:
  assumes "map_of (roomStates e) n = Some r"
  shows "fst (getOrCreateRoom n e) = Existing r"
    "roomStates (snd (getOrCreateRoom n e)) = roomStates e"
    "pendingRooms (snd (getOrCreateRoom n e)) = pendingRooms e"
    "loading (snd (getOrCreateRoom n e)) = loading e"
    "awaiting (snd (getOrCreateRoom n e)) = awaiting e"
    "attached (snd (getOrCreateRoom n e)) = attached e"
    "constructed (snd (getOrCreateRoom n e)) = constructed e"
    "next_id (snd (getOrCreateRoom n e)) = next_id e"
    "fst ` set (heap (snd (getOrCreateRoom n e))) = fst ` set (heap e)"
  using assms
  by (auto simp: getOrCreateRoom_def clearTimeout_def keys_update dest: map_of_Some_key
      split: option.splits)

lemma on_connect_existing:
  assumes "map_of (roomStates e) n = Some r" "r \<in> fst ` set (heap e)"
  shows "roomStates (on_connect n e) = roomStates e"
    "pendingRooms (on_connect n e) = pendingRooms e"
    "loading (on_connect n e) = loading e"
    "awaiting (on_connect n e) = awaiting e"
    "attached (on_connect n e) = AList.update (next_id e) (n, r) (attached e)"
    "constructed (on_connect n e) = constructed e"
    "next_id (on_connect n e) = Suc (next_id e)"
    "fst ` set (heap (on_connect n e)) = fst ` set (heap e)"
proof -
  let ?e0 = "e\<lparr>next_id := Suc (next_id e), ready := AList.update (next_id e) OPEN (ready e)\<rparr>"
  have rs: "map_of (roomStates ?e0) n = Some r" using assms by simp
  have oc: "on_connect n e = attach (next_id e) n r (snd (getOrCreateRoom n ?e0))"
    using getOrCreateRoom_existing(1)[OF rs]
    by (cases "getOrCreateRoom n ?e0") (simp add: on_connect_def Let_def)
  have hp: "r \<in> fst ` set (heap (snd (getOrCreateRoom n ?e0)))"
    using getOrCreateRoom_existing(9)[OF rs] assms by simp
  show "roomStates (on_connect n e) = roomStates e"
    "pendingRooms (on_connect n e) = pendingRooms e"
    "loading (on_connect n e) = loading e"
    "awaiting (on_connect n e) = awaiting e"
    "attached (on_connect n e) = AList.update (next_id e) (n, r) (attached e)"
    "constructed (on_connect n e) = constructed e"
    "next_id (on_connect n e) = Suc (next_id e)"
    "fst ` set (heap (on_connect n e)) = fst ` set (heap e)"
    using getOrCreateRoom_existing[OF rs] hp
    by (simp_all add: oc attach_fields attach_heap attach_attached)
qed

lemma on_connect_pending:
  assumes "map_of (roomStates e) n = None" "map_of (pendingRooms e) n = Some p"
  shows "on_connect n e =
     e\<lparr>next_id := Suc (next_id e), ready := AList.update (next_id e) OPEN (ready e),
       awaiting := awaiting e @ [(next_id e, n, p)]\<rparr>"
  using assms by (simp add: on_connect_def getOrCreateRoom_def Let_def)

lemma on_connect_new:
  assumes "map_of (roomStates e) n = None" "map_of (pendingRooms e) n = None"
  shows "on_connect n e =
     e\<lparr>next_id := Suc (Suc (next_id e)), ready := AList.update (next_id e) OPEN (ready e),
       constructed := constructed e @ [(n, Suc (next_id e))],
       loading := AList.update (Suc (next_id e)) n (loading e),
       pendingRooms := AList.update n (Suc (next_id e)) (pendingRooms e),
       awaiting := awaiting e @ [(next_id e, n, Suc (next_id e))]\<rparr>"
  using assms by (simp add: on_connect_def getOrCreateRoom_def createRoom_def Let_def)

text \<open>A completed \<open>loadDoc\<close>.\<close>

lemma on_load_done_fields:
  assumes "map_of (loading e) pid = Some n"
  shows "roomStates (on_load_done pid e) = AList.update n pid (roomStates e)"
    "pendingRooms (on_load_done pid e) = AList.delete n (pendingRooms e)"
    "loading (on_load_done pid e) = AList.delete pid (loading e)"
    "awaiting (on_load_done pid e) = filter (\<lambda>(ws, n, p). p \<noteq> pid) (awaiting e)"
    "constructed (on_load_done pid e) = constructed e"
    "next_id (on_load_done pid e) = next_id e"
    "fst ` set (heap (on_load_done pid e)) = insert pid (fst ` set (heap e))"
  using assms by (simp_all add: on_load_done_def Let_def resume_fields keys_update)

lemma on_load_done_attached:
  assumes "map_of (loading e) pid = Some n" "inv_sockets e"
  shows "attached (on_load_done pid e) =
     attached e @ filter (\<lambda>(ws, n, p). p = pid) (awaiting e)"
proof -
  let ?e2 = "e\<lparr>heap := AList.update pid (new_state pid) (heap e),
               roomStates := AList.update n pid (roomStates e),
               pendingRooms := AList.delete n (pendingRooms e),
               loading := AList.delete pid (loading e),
               awaiting := filter (\<lambda>(ws, roomId, p). p \<noteq> pid) (awaiting e)\<rparr>"
  have d: "distinct (map fst (awaiting e))"
    "fst ` set (awaiting e) \<inter> fst ` set (attached ?e2) = {}"
    using assms(2) by (auto simp: inv_sockets_def)
  have h: "pid \<in> fst ` set (heap ?e2)" by (simp add: keys_update)
  have "on_load_done pid e = resume_waiters (awaiting e) pid ?e2"
    using assms(1) by (simp add: on_load_done_def Let_def)
  then show ?thesis using resume_attached[OF h d] by simp
qed

subsection \<open>The invariant holds along a run\<close>

lemma fc_inv_init: "fc_inv init_engine"
  by (simp add: fc_inv_def init_engine_def constructions_def inv_constructions_def
      inv_loading_def inv_pending_def inv_heap_def inv_attached_def inv_awaiting_def
      inv_sockets_def)

lemma fresh_socket:
  assumes "inv_sockets e"
  shows "next_id e \<notin> fst ` set (attached e)" "next_id e \<notin> fst ` set (awaiting e)"
  using assms unfolding inv_sockets_def by (metis UnCI less_irrefl)+

lemma connect_existing_inv:
  assumes "fc_inv e" "map_of (roomStates e) n = Some r"
  shows "fc_inv (on_connect n e)"
proof -
  have rh: "r \<in> fst ` set (heap e)"
    using assms unfolding fc_inv_def inv_heap_def by blast
  note f = on_connect_existing[OF assms(2) rh]
  have s: "inv_sockets e" using assms(1) by (simp add: fc_inv_def)
  have att: "attached (on_connect n e) = attached e @ [(next_id e, n, r)]"
    using f(5) fresh_socket(1)[OF s] by (simp add: update_fresh)
  have 1: "inv_constructions (on_connect n e)"
    using assms(1) by (simp add: fc_inv_def inv_constructions_def constructions_def f cong: option.case_cong)
  have 2: "inv_loading (on_connect n e)"
    using assms(1) by (simp add: fc_inv_def inv_loading_def f)
  have 3: "inv_pending (on_connect n e)"
    using assms(1) by (auto simp: fc_inv_def inv_pending_def f less_Suc_eq)
  have 4: "inv_heap (on_connect n e)"
    using assms(1) by (simp add: fc_inv_def inv_heap_def f)
  have 5: "inv_attached (on_connect n e)"
    using assms by (auto simp: fc_inv_def inv_attached_def f(1) att)
  have 6: "inv_awaiting (on_connect n e)"
    using assms(1) by (simp add: fc_inv_def inv_awaiting_def f)
  have 7: "inv_sockets (on_connect n e)"
    using s fresh_socket[OF s] by (auto simp: inv_sockets_def f(4,7) att less_Suc_eq)
  show ?thesis using 1 2 3 4 5 6 7 by (simp add: fc_inv_def)
qed

lemma connect_pending_inv:
  assumes "fc_inv e" "map_of (roomStates e) n = None" "map_of (pendingRooms e) n = Some p"
  shows "fc_inv (on_connect n e)"
proof -
  note f = on_connect_pending[OF assms(2,3)]
  have s: "inv_sockets e" using assms(1) by (simp add: fc_inv_def)
  have 1: "inv_constructions (on_connect n e)"
    using assms(1) by (simp add: fc_inv_def inv_constructions_def constructions_def f cong: option.case_cong)
  have 2: "inv_loading (on_connect n e)"
    using assms(1) by (simp add: fc_inv_def inv_loading_def f)
  have 3: "inv_pending (on_connect n e)"
    using assms(1) by (auto simp: fc_inv_def inv_pending_def f less_Suc_eq)
  have 4: "inv_heap (on_connect n e)"
    using assms(1) by (simp add: fc_inv_def inv_heap_def f)
  have 5: "inv_attached (on_connect n e)"
    using assms(1) by (simp add: fc_inv_def inv_attached_def f)
  have 6: "inv_awaiting (on_connect n e)"
    using assms by (auto simp: fc_inv_def inv_awaiting_def f)
  have 7: "inv_sockets (on_connect n e)"
    using s fresh_socket[OF s] by (auto simp: inv_sockets_def f less_Suc_eq)
  show ?thesis using 1 2 3 4 5 6 7 by (simp add: fc_inv_def)
qed

lemma connect_new_inv:
  assumes "fc_inv e" "map_of (roomStates e) n = None" "map_of (pendingRooms e) n = None"
  shows "fc_inv (on_connect n e)"
proof -
  note f = on_connect_new[OF assms(2,3)]
  have s: "inv_sockets e" and l: "inv_loading e" and p: "inv_pending e" and a: "inv_awaiting e"
    and c: "inv_constructions e"
    using assms(1) by (simp_all add: fc_inv_def)
  have nl: "\<And>q. map_of (loading e) q \<noteq> Some n"
    using l assms(3) unfolding inv_loading_def by (metis option.distinct(1))
  have np: "\<And>n'. map_of (pendingRooms e) n' \<noteq> Some (Suc (next_id e))"
    using p unfolding inv_pending_def by (metis Suc_n_not_le_n less_imp_le_nat)
  have cn: "constructions n e = []"
    using c assms(2,3) by (simp add: inv_constructions_def)
  have 1: "inv_constructions (on_connect n e)"
    unfolding inv_constructions_def
  proof
    fix n'
    show "constructions n' (on_connect n e) =
        (case map_of (roomStates (on_connect n e)) n' of
           Some r \<Rightarrow> [r]
         | None \<Rightarrow> (case map_of (pendingRooms (on_connect n e)) n' of Some p \<Rightarrow> [p] | None \<Rightarrow> []))"
    proof (cases "n' = n")
      case True
      then show ?thesis using cn assms(2) by (simp add: f constructions_def update_conv cong: option.case_cong)
    next
      case False
      have "constructions n' (on_connect n e) = constructions n' e"
        using False by (simp add: f constructions_def)
      then show ?thesis using c False by (simp add: inv_constructions_def f update_conv cong: option.case_cong)
    qed
  qed
  have 2: "inv_loading (on_connect n e)"
    using l nl assms(2) by (auto simp: inv_loading_def f update_conv)
  have 3: "inv_pending (on_connect n e)"
    using p np by (auto simp: inv_pending_def f update_conv less_Suc_eq)
  have 4: "inv_heap (on_connect n e)"
    using assms(1) by (simp add: fc_inv_def inv_heap_def f)
  have 5: "inv_attached (on_connect n e)"
    using assms(1) by (simp add: fc_inv_def inv_attached_def f)
  have 6: "inv_awaiting (on_connect n e)"
    using a assms(3) by (auto simp: inv_awaiting_def f update_conv)
  have 7: "inv_sockets (on_connect n e)"
    using s fresh_socket[OF s] by (auto simp: inv_sockets_def f less_Suc_eq)
  show ?thesis using 1 2 3 4 5 6 7 by (simp add: fc_inv_def)
qed

lemma fc_inv_connect: "fc_inv e \<Longrightarrow> fc_inv (on_connect n e)"
  using connect_existing_inv connect_pending_inv connect_new_inv
  by (cases "map_of (roomStates e) n"; cases "map_of (pendingRooms e) n") auto

lemma load_done_inv:
  assumes "fc_inv e"
  shows "fc_inv (on_load_done pid e)"
proof (cases "map_of (loading e) pid")
  case None
  then show ?thesis using assms by (simp add: on_load_done_def)
next
  case (Some n)
  have s: "inv_sockets e" and l: "inv_loading e" and p: "inv_pending e" and a: "inv_awaiting e"
    and c: "inv_constructions e" and at: "inv_attached e" and hp: "inv_heap e"
    using assms(1) by (simp_all add: fc_inv_def)
  note f = on_load_done_fields[OF Some] on_load_done_attached[OF Some s]
  have pn: "map_of (pendingRooms e) n = Some pid" and rn: "map_of (roomStates e) n = None"
    using l Some by (auto simp: inv_loading_def)
  have 1: "inv_constructions (on_load_done pid e)"
    unfolding inv_constructions_def
  proof
    fix n'
    have "constructions n' (on_load_done pid e) = constructions n' e"
      by (simp add: f constructions_def)
    then show "constructions n' (on_load_done pid e) =
        (case map_of (roomStates (on_load_done pid e)) n' of
           Some r \<Rightarrow> [r]
         | None \<Rightarrow> (case map_of (pendingRooms (on_load_done pid e)) n' of Some p \<Rightarrow> [p] | None \<Rightarrow> []))"
      using c pn rn
      by (cases "n' = n")
         (simp_all add: inv_constructions_def f update_conv delete_conv cong: option.case_cong)
  qed
  have 2: "inv_loading (on_load_done pid e)"
    using l pn by (auto simp: inv_loading_def f update_conv delete_conv)
  have 3: "inv_pending (on_load_done pid e)"
    using p Some by (auto simp: inv_pending_def f update_conv delete_conv split: if_splits)
  have 4: "inv_heap (on_load_done pid e)"
    using hp by (auto simp: inv_heap_def f update_conv split: if_splits)
  have 5: "inv_attached (on_load_done pid e)"
    unfolding inv_attached_def
  proof (intro allI impI)
    fix ws n' r
    assume m: "(ws, n', r) \<in> set (attached (on_load_done pid e))"
    then consider (old) "(ws, n', r) \<in> set (attached e)"
      | (new) "(ws, n', r) \<in> set (awaiting e)" "r = pid"
      by (auto simp: f)
    then show "map_of (roomStates (on_load_done pid e)) n' = Some r"
    proof cases
      case old
      then have "map_of (roomStates e) n' = Some r" using at by (auto simp: inv_attached_def)
      then show ?thesis using rn by (auto simp: f update_conv)
    next
      case new
      then have "map_of (pendingRooms e) n' = Some pid" using a by (auto simp: inv_awaiting_def)
      then have "map_of (loading e) pid = Some n'" using p by (auto simp: inv_pending_def)
      then have "n' = n" using Some by simp
      then show ?thesis using new by (simp add: f update_conv)
    qed
  qed
  have 6: "inv_awaiting (on_load_done pid e)"
    unfolding inv_awaiting_def
  proof (intro allI impI)
    fix ws n' q
    assume m: "(ws, n', q) \<in> set (awaiting (on_load_done pid e))"
    then have aw: "(ws, n', q) \<in> set (awaiting e)" and ne: "q \<noteq> pid" by (auto simp: f)
    then have pq: "map_of (pendingRooms e) n' = Some q" using a by (auto simp: inv_awaiting_def)
    then have "n' \<noteq> n" using pn ne by auto
    then show "map_of (pendingRooms (on_load_done pid e)) n' = Some q"
      using pq by (simp add: f delete_conv)
  qed
  have 7: "inv_sockets (on_load_done pid e)"
    using s distinct_fst_partition[of "attached e" "awaiting e" "\<lambda>(ws, n, p). p = pid"]
    by (auto simp: inv_sockets_def f split_def)
  show ?thesis using 1 2 3 4 5 6 7 by (simp add: fc_inv_def)
qed

subsection \<open>Names known to the engine, and the number of callers\<close>

lemma known_connect:
  assumes "fc_inv e"
  shows "known n (on_connect m e) = (known n e \<or> n = m)"
proof (cases "map_of (roomStates e) m")
  case (Some r)
  have rh: "r \<in> fst ` set (heap e)"
    using assms Some unfolding fc_inv_def inv_heap_def by blast
  show ?thesis using Some by (auto simp: known_def on_connect_existing[OF Some rh])
next
  case None
  show ?thesis
  proof (cases "map_of (pendingRooms e) m")
    case (Some p)
    show ?thesis using None Some by (auto simp: known_def on_connect_pending[OF None Some])
  next
    case N2: None
    show ?thesis by (auto simp: known_def on_connect_new[OF None N2] update_conv)
  qed
qed

lemma known_load_done:
  assumes "fc_inv e"
  shows "known n (on_load_done pid e) = known n e"
proof (cases "map_of (loading e) pid")
  case None
  then show ?thesis by (simp add: on_load_done_def)
next
  case (Some m)
  have "map_of (pendingRooms e) m = Some pid"
    using assms Some by (auto simp: fc_inv_def inv_loading_def)
  then show ?thesis
    by (auto simp: known_def on_load_done_fields[OF Some] update_conv delete_conv)
qed

lemma callers_connect:
  assumes "fc_inv e"
  shows "length (callers n (on_connect m e)) = length (callers n e) + (if n = m then 1 else 0)"
proof (cases "map_of (roomStates e) m")
  case (Some r)
  have rh: "r \<in> fst ` set (heap e)"
    using assms Some unfolding fc_inv_def inv_heap_def by blast
  have s: "inv_sockets e" using assms by (simp add: fc_inv_def)
  note f = on_connect_existing[OF Some rh]
  have att: "attached (on_connect m e) = attached e @ [(next_id e, m, r)]"
    using f(5) fresh_socket(1)[OF s] by (simp add: update_fresh)
  show ?thesis by (simp add: callers_def att f(4))
next
  case None
  show ?thesis
  proof (cases "map_of (pendingRooms e) m")
    case (Some p)
    show ?thesis by (simp add: callers_def on_connect_pending[OF None Some])
  next
    case N2: None
    show ?thesis by (simp add: callers_def on_connect_new[OF None N2])
  qed
qed

lemma callers_load_done:
  assumes "fc_inv e"
  shows "length (callers n (on_load_done pid e)) = length (callers n e)"
proof (cases "map_of (loading e) pid")
  case None
  then show ?thesis by (simp add: on_load_done_def)
next
  case (Some m)
  have s: "inv_sockets e" using assms by (simp add: fc_inv_def)
  have eq: "(\<lambda>(ws, n, p). p \<noteq> pid) = (\<lambda>x. \<not> (case x of (ws, n, p) \<Rightarrow> p = pid))"
    by auto
  show ?thesis
    using length_filter_partition[of "\<lambda>(ws, r, p). r = n" "\<lambda>(ws, n, p). p = pid" "awaiting e"]
    by (simp add: callers_def on_load_done_fields(4)[OF Some] on_load_done_attached[OF Some s] eq)
qed

lemma run_snoc: "run e (evs @ [ev]) = step (run e evs) ev"
  by (simp add: run_def)

lemma first_connect_run:
  assumes "list_all first_connect_event evs"
  shows "fc_inv (run init_engine evs)
     \<and> (\<forall>n. known n (run init_engine evs) = (Connect n \<in> set evs))
     \<and> (\<forall>n. length (callers n (run init_engine evs)) = count_list evs (Connect n))"
  using assms
proof (induction evs rule: rev_induct)
  case Nil
  show ?case
    using fc_inv_init by (simp add: run_def known_def callers_def init_engine_def)
next
  case (snoc ev evs)
  then have ih: "fc_inv (run init_engine evs)"
    "\<And>n. known n (run init_engine evs) = (Connect n \<in> set evs)"
    "\<And>n. length (callers n (run init_engine evs)) = count_list evs (Connect n)"
    by auto
  have fe: "first_connect_event ev" using snoc.prems by simp
  show ?case
  proof (cases ev)
    case (Connect m)
    show ?thesis
      using ih fc_inv_connect[OF ih(1), of m] known_connect[OF ih(1), of _ m]
        callers_connect[OF ih(1), of _ m]
      by (auto simp: run_snoc Connect)
  next
    case (LoadDone pid)
    show ?thesis
      using ih load_done_inv[OF ih(1), of pid] known_load_done[OF ih(1), of _ pid]
        callers_load_done[OF ih(1), of _ pid]
      by (auto simp: run_snoc LoadDone)
  qed (use fe in simp_all)
qed

lemma inv_consequences:
  assumes "fc_inv e"
  shows "length (constructions n e) = (if known n e then 1 else 0)"
    and "\<forall>c \<in> set (callers n e). constructions n e = [snd c]"
    and "n \<in> fst ` set (roomStates e) \<longrightarrow> (\<forall>w \<in> set (awaiting e). fst (snd w) \<noteq> n)"
proof -
  have c: "inv_constructions e" and l: "inv_loading e" and p: "inv_pending e"
    and a: "inv_awaiting e" and at: "inv_attached e"
    using assms by (simp_all add: fc_inv_def)
  show "length (constructions n e) = (if known n e then 1 else 0)"
    using c by (auto simp: inv_constructions_def known_def split: option.splits)
  have aw: "\<And>ws p. (ws, n, p) \<in> set (awaiting e) \<Longrightarrow>
      map_of (pendingRooms e) n = Some p \<and> map_of (roomStates e) n = None"
    using a p l unfolding inv_awaiting_def inv_pending_def inv_loading_def by blast
  show "\<forall>c \<in> set (callers n e). constructions n e = [snd c]"
  proof
    fix x assume "x \<in> set (callers n e)"
    then obtain ws r where x: "x = (ws, r)"
      and m: "(ws, n, r) \<in> set (attached e) \<or> (ws, n, r) \<in> set (awaiting e)"
      by (auto simp: callers_def)
    from m show "constructions n e = [snd x]"
    proof
      assume "(ws, n, r) \<in> set (attached e)"
      then have "map_of (roomStates e) n = Some r" using at by (auto simp: inv_attached_def)
      then show ?thesis using c x by (simp add: inv_constructions_def)
    next
      assume "(ws, n, r) \<in> set (awaiting e)"
      then show ?thesis using aw c x by (simp add: inv_constructions_def)
    qed
  qed
  show "n \<in> fst ` set (roomStates e) \<longrightarrow> (\<forall>w \<in> set (awaiting e). fst (snd w) \<noteq> n)"
  proof (intro impI ballI)
    fix w assume k: "n \<in> fst ` set (roomStates e)" and w: "w \<in> set (awaiting e)"
    show "fst (snd w) \<noteq> n"
    proof
      assume "fst (snd w) = n"
      then have "(fst w, n, snd (snd w)) \<in> set (awaiting e)" using w by (metis prod.collapse)
      then have "map_of (roomStates e) n = None" using aw by blast
      then show False using k by (simp add: map_of_eq_None_iff)
    qed
  qed
qed

subsection \<open>Callers resolve to the one state\<close>

text \<open>Resuming the connection handlers that awaited a creation adds their
  sockets, in the order of their calls, to the clients of the new state.\<close>

lemma attach_heap_clients:
  assumes "map_of (heap e) pid = Some st"
  shows "map_of (heap (attach ws n pid e)) pid = Some (st\<lparr>clients_set := set_add ws (clients_set st)\<rparr>)"
  using assms by (simp add: attach_def Let_def update_conv)

lemma resume_heap_clients:
  "map_of (heap e) pid = Some st \<Longrightarrow> distinct (map fst waiters) \<Longrightarrow>
   fst ` set waiters \<inter> set (clients_set st) = {} \<Longrightarrow>
   map_option clients_set (map_of (heap (resume_waiters waiters pid e)) pid) =
     Some (clients_set st @ map fst (filter (\<lambda>(ws, n, p). p = pid) waiters))"
proof (induction waiters pid e arbitrary: st rule: resume_waiters.induct)
  case (1 pid e)
  then show ?case by simp
next
  case (2 ws roomId p rest pid e)
  show ?case
  proof (cases "p = pid")
    case True
    let ?st = "st\<lparr>clients_set := clients_set st @ [ws]\<rparr>"
    have nin: "ws \<notin> set (clients_set st)" using 2(5) by auto
    have h: "map_of (heap (attach ws roomId pid e)) pid = Some ?st"
      using attach_heap_clients[OF 2(3), of ws roomId] nin by (simp add: set_add_def)
    have d: "distinct (map fst rest)" using 2(4) by simp
    have i: "fst ` set rest \<inter> set (clients_set ?st) = {}" using 2(4,5) by auto
    show ?thesis using 2(1)[OF True h d i] True by simp
  next
    case False
    have d: "distinct (map fst rest)" using 2(4) by simp
    have i: "fst ` set rest \<inter> set (clients_set st) = {}" using 2(5) by auto
    show ?thesis using 2(2)[OF False 2(3) d i] False by simp
  qed
qed

lemma on_load_done_clients:
  assumes "map_of (loading e) pid = Some n" "inv_sockets e"
  shows "map_option clients_set (map_of (heap (on_load_done pid e)) pid) =
     Some (map fst (filter (\<lambda>(ws, n, p). p = pid) (awaiting e)))"
proof -
  let ?e2 = "e\<lparr>heap := AList.update pid (new_state pid) (heap e),
               roomStates := AList.update n pid (roomStates e),
               pendingRooms := AList.delete n (pendingRooms e),
               loading := AList.delete pid (loading e),
               awaiting := filter (\<lambda>(ws, roomId, p). p \<noteq> pid) (awaiting e)\<rparr>"
  have d: "distinct (map fst (awaiting e))"
    using assms(2) by (auto simp: inv_sockets_def)
  have h: "map_of (heap ?e2) pid = Some (new_state pid)" by (simp add: update_conv)
  have i: "fst ` set (awaiting e) \<inter> set (clients_set (new_state pid)) = {}"
    by (simp add: new_state_def)
  have "on_load_done pid e = resume_waiters (awaiting e) pid ?e2"
    using assms(1) by (simp add: on_load_done_def Let_def)
  then show ?thesis using resume_heap_clients[OF h d i] by (simp add: new_state_def)
qed

lemma callers_distinct:
  assumes "inv_sockets e"
  shows "distinct (map fst (callers n e))"
proof -
  have "map fst (callers n e) =
      map fst (filter (\<lambda>(ws, r, p). r = n) (attached e @ awaiting e))"
    by (simp add: callers_def split_def comp_def)
  then show ?thesis
    using assms by (simp add: inv_sockets_def distinct_map_filter del: filter_append map_append)
qed

lemma load_in_flight:
  assumes "fc_inv e" "known n e" "map_of (roomStates e) n = None"
  shows "\<exists>q. map_of (loading e) q = Some n"
  using assms by (auto simp: fc_inv_def inv_pending_def known_def)

lemma stored_all_resolved:
  assumes "fc_inv e" "map_of (roomStates e) n = Some r"
  shows "resolved n e = callers n e" "\<forall>c \<in> set (callers n e). snd c = r"
proof -
  have k: "n \<in> fst ` set (roomStates e)" using assms(2) by (rule map_of_Some_key)
  have "\<forall>w \<in> set (awaiting e). fst (snd w) \<noteq> n"
    using inv_consequences(3)[OF assms(1), of n] k by simp
  then have "filter (\<lambda>(ws, r, p). r = n) (awaiting e) = []"
    by (auto simp: filter_empty_conv)
  then show "resolved n e = callers n e" by (simp add: resolved_def callers_def)
  have "constructions n e = [r]"
    using assms by (simp add: fc_inv_def inv_constructions_def)
  then show "\<forall>c \<in> set (callers n e). snd c = r"
    using inv_consequences(2)[OF assms(1), of n] by simp
qed

lemma load_done_resolves:
  assumes "fc_inv e" "map_of (loading e) p = Some n"
  shows "map_of (roomStates (on_load_done p e)) n = Some p"
    and "resolved n (on_load_done p e) = callers n e"
    and "\<forall>c \<in> set (resolved n (on_load_done p e)). snd c = p"
    and "map_option clients_set (map_of (heap (on_load_done p e)) p) = Some (map fst (callers n e))"
proof -
  have s: "inv_sockets e" and l: "inv_loading e" and pe: "inv_pending e" and a: "inv_awaiting e"
    and at: "inv_attached e"
    using assms(1) by (simp_all add: fc_inv_def)
  have pn: "map_of (pendingRooms e) n = Some p" and rn: "map_of (roomStates e) n = None"
    using l assms(2) by (auto simp: inv_loading_def)
  have att: "filter (\<lambda>(ws, r, q). r = n) (attached e) = []"
    using at rn by (auto simp: filter_empty_conv inv_attached_def)
  have aw: "filter (\<lambda>(ws, r, q). q = p) (awaiting e) = filter (\<lambda>(ws, r, q). r = n) (awaiting e)"
  proof (rule filter_cong[OF refl])
    fix x assume x: "x \<in> set (awaiting e)"
    obtain ws r q where xe: "x = (ws, r, q)" by (cases x)
    have pq: "map_of (pendingRooms e) r = Some q" using a x xe by (auto simp: inv_awaiting_def)
    then have lq: "map_of (loading e) q = Some r" using pe by (auto simp: inv_pending_def)
    show "(case x of (ws, r, q) \<Rightarrow> q = p) = (case x of (ws, r, q) \<Rightarrow> r = n)"
      using pq lq pn assms(2) xe by auto
  qed
  have c: "callers n e = map (\<lambda>(ws, r, q). (ws, q)) (filter (\<lambda>(ws, r, q). r = n) (awaiting e))"
    using att by (simp add: callers_def)
  show "map_of (roomStates (on_load_done p e)) n = Some p"
    by (simp add: on_load_done_fields(1)[OF assms(2)] update_conv)
  have r: "resolved n (on_load_done p e) =
      map (\<lambda>(ws, r, q). (ws, q)) (filter (\<lambda>(ws, r, q). r = n) (filter (\<lambda>(ws, r, q). q = p) (awaiting e)))"
    using att by (simp add: resolved_def on_load_done_attached[OF assms(2) s])
  then show "resolved n (on_load_done p e) = callers n e"
    by (simp add: c aw)
  show "\<forall>c \<in> set (resolved n (on_load_done p e)). snd c = p"
    by (auto simp: r)
  show "map_option clients_set (map_of (heap (on_load_done p e)) p) = Some (map fst (callers n e))"
    using aw by (simp add: on_load_done_clients[OF assms(2) s] c split_def comp_def)
qed

text \<open>
  Claim C7.  In every run of \<open>connection\<close> events and \<open>loadDoc\<close> completions
  from the empty engine, and for every document name \<open>n\<close>: exactly one replica
  is constructed under \<open>n\<close> if any socket connected to \<open>n\<close> and none otherwise;
  every \<open>connection\<close> event for \<open>n\<close> has its own socket among the callers of
  \<open>getOrCreateRoom n\<close>, and every caller holds, or awaits the promise of, that
  one construction.  While the state of \<open>n\<close> is not stored, the \<open>loadDoc\<close> of
  the construction is in flight.  When the \<open>loadDoc\<close> of a construction \<open>p\<close> for
  \<open>n\<close> completes, \<open>p\<close> is stored as the state of \<open>n\<close>, every caller's call has
  returned with the state object \<open>p\<close>, and the clients of \<open>p\<close> are the callers'
  sockets.  Once a state \<open>r\<close> is stored under \<open>n\<close>, every caller's call has
  returned, with \<open>r\<close>.
\<close>

theorem first_connect_single_construction:
  assumes "list_all first_connect_event evs"
  shows "length (constructions n (run init_engine evs)) = (if Connect n \<in> set evs then 1 else 0)
     \<and> length (callers n (run init_engine evs)) = count_list evs (Connect n)
     \<and> distinct (map fst (callers n (run init_engine evs)))
     \<and> (\<forall>c \<in> set (callers n (run init_engine evs)). constructions n (run init_engine evs) = [snd c])
     \<and> (Connect n \<in> set evs \<and> map_of (roomStates (run init_engine evs)) n = None \<longrightarrow>
          (\<exists>q. map_of (loading (run init_engine evs)) q = Some n))
     \<and> (map_of (loading (run init_engine evs)) p = Some n \<longrightarrow>
          map_of (roomStates (run init_engine (evs @ [LoadDone p]))) n = Some p
          \<and> resolved n (run init_engine (evs @ [LoadDone p])) = callers n (run init_engine evs)
          \<and> (\<forall>c \<in> set (resolved n (run init_engine (evs @ [LoadDone p]))). snd c = p)
          \<and> map_option clients_set (map_of (heap (run init_engine (evs @ [LoadDone p]))) p)
              = Some (map fst (callers n (run init_engine evs))))
     \<and> (map_of (roomStates (run init_engine evs)) n = Some r \<longrightarrow>
          resolved n (run init_engine evs) = callers n (run init_engine evs)
          \<and> (\<forall>c \<in> set (callers n (run init_engine evs)). snd c = r))"
proof -
  let ?e = "run init_engine evs"
  have inv: "fc_inv ?e" and kn: "known n ?e = (Connect n \<in> set evs)"
    and len: "length (callers n ?e) = count_list evs (Connect n)"
    using first_connect_run[OF assms] by simp_all
  have 1: "length (constructions n ?e) = (if Connect n \<in> set evs then 1 else 0)"
    using inv_consequences(1)[OF inv, of n] kn by simp
  have 3: "distinct (map fst (callers n ?e))"
    using inv callers_distinct by (simp add: fc_inv_def)
  have 4: "\<forall>c \<in> set (callers n ?e). constructions n ?e = [snd c]"
    using inv_consequences(2)[OF inv] .
  have 5: "Connect n \<in> set evs \<and> map_of (roomStates ?e) n = None \<longrightarrow>
      (\<exists>q. map_of (loading ?e) q = Some n)"
    using load_in_flight[OF inv, of n] kn by simp
  have 6: "map_of (loading ?e) p = Some n \<longrightarrow>
          map_of (roomStates (run init_engine (evs @ [LoadDone p]))) n = Some p
          \<and> resolved n (run init_engine (evs @ [LoadDone p])) = callers n ?e
          \<and> (\<forall>c \<in> set (resolved n (run init_engine (evs @ [LoadDone p]))). snd c = p)
          \<and> map_option clients_set (map_of (heap (run init_engine (evs @ [LoadDone p]))) p)
              = Some (map fst (callers n ?e))"
    using load_done_resolves[OF inv, of p n] by (simp add: run_snoc)
  have 7: "map_of (roomStates ?e) n = Some r \<longrightarrow>
          resolved n ?e = callers n ?e \<and> (\<forall>c \<in> set (callers n ?e). snd c = r)"
    using stored_all_resolved[OF inv, of n r] by simp
  show ?thesis using 1 len 3 4 5 6 7 by blast
qed

theorem first_connect_single_construction_witness:
  "list_all first_connect_event [Connect ''r:x'', Connect ''r:x'']
   \<and> map_of (roomStates (run init_engine [Connect ''r:x'', Connect ''r:x''])) ''r:x'' = None
   \<and> map_of (loading (run init_engine [Connect ''r:x'', Connect ''r:x''])) 1 = Some ''r:x''
   \<and> callers ''r:x'' (run init_engine [Connect ''r:x'', Connect ''r:x'']) = [(0, 1), (2, 1)]
   \<and> constructions ''r:x'' (run init_engine [Connect ''r:x'', Connect ''r:x'']) = [1]
   \<and> map_of (roomStates (run init_engine ([Connect ''r:x'', Connect ''r:x''] @ [LoadDone 1])))
        ''r:x'' = Some 1
   \<and> resolved ''r:x'' (run init_engine ([Connect ''r:x'', Connect ''r:x''] @ [LoadDone 1]))
        = [(0, 1), (2, 1)]
   \<and> map_option clients_set
        (map_of (heap (run init_engine ([Connect ''r:x'', Connect ''r:x''] @ [LoadDone 1]))) 1)
        = Some [0, 2]
   \<and> list_all first_connect_event [Connect ''r:x'', Connect ''r:x'', LoadDone 1, Connect ''r:x'']
   \<and> map_of (roomStates
        (run init_engine [Connect ''r:x'', Connect ''r:x'', LoadDone 1, Connect ''r:x'']))
        ''r:x'' = Some 1
   \<and> length (resolved ''r:x''
        (run init_engine [Connect ''r:x'', Connect ''r:x'', LoadDone 1, Connect ''r:x''])) = 3"
proof -
  have a: "run init_engine [Connect ''r:x'', Connect ''r:x''] =
      init_engine\<lparr>pendingRooms := [(''r:x'', 1)], loading := [(1, ''r:x'')],
        awaiting := [(0, ''r:x'', 1), (2, ''r:x'', 1)], ready := [(0, OPEN), (2, OPEN)],
        next_id := 3, constructed := [(''r:x'', 1)]\<rparr>"
    by (simp add: run_def init_engine_def on_connect_def getOrCreateRoom_def createRoom_def Let_def)
  have a1: "map_of (roomStates (run init_engine [Connect ''r:x'', Connect ''r:x''])) ''r:x'' = None"
    and a2: "map_of (loading (run init_engine [Connect ''r:x'', Connect ''r:x''])) 1 = Some ''r:x''"
    and a3: "callers ''r:x'' (run init_engine [Connect ''r:x'', Connect ''r:x'']) = [(0, 1), (2, 1)]"
    and a4: "constructions ''r:x'' (run init_engine [Connect ''r:x'', Connect ''r:x'']) = [1]"
    unfolding a by (simp_all add: callers_def constructions_def init_engine_def)
  have b: "map_of (roomStates
        (run init_engine [Connect ''r:x'', Connect ''r:x'', LoadDone 1, Connect ''r:x'']))
        ''r:x'' = Some 1"
    by (simp add: run_def init_engine_def on_connect_def getOrCreateRoom_def createRoom_def
        on_load_done_def attach_def new_state_def set_add_def Let_def)
  show ?thesis
    using first_connect_single_construction [of "[Connect ''r:x'', Connect ''r:x'']" "''r:x''" 1 1]
      first_connect_single_construction
        [of "[Connect ''r:x'', Connect ''r:x'', LoadDone 1, Connect ''r:x'']" "''r:x''" 1 1]
      a1 a2 a3 a4 b
    by simp
qed

section \<open>Control channel: relay, approval, host status\<close>

subsection \<open>The loops\<close>

lemma broadcast_loop_eq:
  "broadcast_loop cs data ex =
     map (\<lambda>(ws, c). (ws, data))
       (filter (\<lambda>(ws, c). Some ws \<noteq> ex \<and> approved c \<and> readyState c = OPEN) cs)"
  by (induction cs data ex rule: broadcast_loop.induct) auto

lemma fanout_others_eq:
  "fanout_others rs cs origin msg =
     map (\<lambda>c. (c, msg)) (filter (\<lambda>c. Some c \<noteq> origin \<and> rs c = OPEN) cs)"
  by (induction cs) auto

lemma fanout_all_eq:
  "fanout_all rs cs msg = map (\<lambda>c. (c, msg)) (filter (\<lambda>c. rs c = OPEN) cs)"
  by (induction cs) auto

lemma kick_loop_out: "(w, Raw d) \<notin> set (snd (kick_loop cs t))"
  by (induction cs t rule: kick_loop.induct) (auto simp: sendTo_def split: prod.splits)

subsection \<open>What the branches send and what they leave alone\<close>

lemma handle_kick_no_raw: "(w, Raw d) \<notin> set (snd (handle_kick msg room))"
  using kick_loop_out[of w d "clients room" "m_userId msg"]
  by (cases "kick_loop (clients room) (m_userId msg)") (simp add: handle_kick_def)

lemma handle_join_request_no_raw:
  "(w, Raw d) \<notin> set (snd (handle_join_request serverRoom ws msg client room))"
  by (auto simp: handle_join_request_def sendTo_def Let_def split: option.splits)

lemma handle_join_response_no_raw:
  "(w, Raw d) \<notin> set (snd (handle_join_response msg room))"
  by (auto simp: handle_join_response_def sendTo_def Let_def split: option.splits)

lemma unapproved_sender_not_relayed:
  assumes "map_of (clients room) ws = Some client" "\<not> approved client"
    "on_message serverRoom ws data p room = Inr (room', out)"
  shows "(w, Raw d) \<notin> set out"
proof -
  have "out = []
     \<or> out = snd (handle_join_request serverRoom ws (case p of ParsedValue m \<Rightarrow> m) client room)
     \<or> out = snd (handle_join_response (case p of ParsedValue m \<Rightarrow> m) room)
     \<or> out = snd (handle_kick (case p of ParsedValue m \<Rightarrow> m) room)"
    using assms
    by (auto simp: on_message_def split: parsed.splits option.splits if_splits)
  then show ?thesis
    using handle_kick_no_raw handle_join_request_no_raw handle_join_response_no_raw
    by auto
qed

lemma join_request_unapproves:
  assumes "requires_approval serverRoom" "map_of (clients room) ws = Some client"
    "m_type msg = Some ''join-request''"
    "on_message serverRoom ws data (ParsedValue msg) room = Inr (room', out)"
  shows "map_option approved (map_of (clients room') ws) = Some False"
  using assms
  by (auto simp: on_message_def handle_join_request_def Let_def ALLOWED_TYPES_def update_conv
      split: option.splits)

subsection \<open>Host-only commands\<close>

text \<open>A \<open>kick\<close> or \<open>join-response\<close> of a client that is not host changes no
  state; it is sent on, unchanged, to the other approved open sockets when the
  sender is approved.\<close>

lemma non_host_command:
  assumes "map_of (clients room) ws = Some client" "\<not> isHost client"
    "m_type msg = Some ''kick'' \<or> m_type msg = Some ''join-response''"
  shows "on_message serverRoom ws data (ParsedValue msg) room =
     Inr (room, if approved client then broadcast room (Raw data) (Some ws) else [])"
  using assms by (auto simp: on_message_def ALLOWED_TYPES_def)

text \<open>
  Claim C1, at a concrete room.  Socket 2 belongs to an approved guest that is
  not host; sockets 1 (the host) and 3 (another guest) are approved and open.
  The guest's \<open>kick\<close> and its \<open>join-response\<close> leave the room state as it was,
  and each is written, as received, to sockets 1 and 3.
\<close>

theorem non_host_command_is_relayed:
  "on_message None 2 ''{type:kick,userId:host-1}''
      (ParsedValue (ex_msg ''kick'' (Some ''host-1''))) ex_room
     = Inr (ex_room, [(1, Raw ''{type:kick,userId:host-1}''),
                      (3, Raw ''{type:kick,userId:host-1}'')])
   \<and> on_message None 2 ''{type:join-response,userId:guest-2,approved:true}''
      (ParsedValue (ex_msg ''join-response'' (Some ''guest-2''))) ex_room
     = Inr (ex_room, [(1, Raw ''{type:join-response,userId:guest-2,approved:true}''),
                      (3, Raw ''{type:join-response,userId:guest-2,approved:true}'')])"
  by (simp add: on_message_def ex_room_def ex_msg_def ex_member_def ALLOWED_TYPES_def
      broadcast_def)

subsection \<open>Approval\<close>

text \<open>
  Claim C2, at a concrete room.  The room's metadata requires approval, and
  socket 1 is the host's.  Socket 2 connects: its client entry starts approved.
  Without having sent a \<open>join-request\<close> it sends a \<open>file-op\<close>, and the message is
  written, as received, to socket 1, the room state unchanged.  Had socket 2
  sent a \<open>join-request\<close> first, the same \<open>file-op\<close> would have been written to
  no socket.
\<close>

theorem guest_relayed_without_approval:
  "approved (new_client (Some (ex_meta None (Some True) None))) = True
   \<and> on_message (Some (ex_meta None (Some True) None)) 2 ''{type:file-op,op:delete}''
        (ParsedValue (ex_msg ''file-op'' None))
        (on_connection (Some (ex_meta None (Some True) None)) 2 ex_host_room)
     = Inr (on_connection (Some (ex_meta None (Some True) None)) 2 ex_host_room,
            [(1, Raw ''{type:file-op,op:delete}'')])
   \<and> map_sum id snd
        (case on_message (Some (ex_meta None (Some True) None)) 2 ''{type:join-request,userId:guest-1}''
                (ParsedValue (ex_msg ''join-request'' (Some ''guest-1'')))
                (on_connection (Some (ex_meta None (Some True) None)) 2 ex_host_room) of
           Inl err \<Rightarrow> Inl err
         | Inr (room, out) \<Rightarrow>
             on_message (Some (ex_meta None (Some True) None)) 2 ''{type:file-op,op:delete}''
               (ParsedValue (ex_msg ''file-op'' None)) room)
     = Inr []"
  by (simp add: on_message_def on_connection_def new_client_def ex_host_room_def ex_msg_def
      ex_member_def ex_meta_def ALLOWED_TYPES_def handle_join_request_def requires_approval_def
      findHost_def sendTo_def truthy_def or_empty_def broadcast_def Let_def)

subsection \<open>Host status\<close>

text \<open>
  Claim C4, at a concrete room.  The room's metadata pins no host.  Socket 1
  connects to the empty room and sends three messages: a \<open>presence-update\<close>
  with the user id \<open>host-1\<close>, a \<open>join-request\<close> without a user id, and the same
  \<open>presence-update\<close> again.  Listed are the socket's recorded user id and host
  flag after one, two and three of the messages: the first makes the socket
  host; the second empties its recorded user id; the third decides the host
  status once more and, the room having a host (the socket itself), clears the
  flag.
\<close>

theorem host_demoted_after_join_request:
  "map (\<lambda>msgs. map_sum id (\<lambda>room. map (\<lambda>(ws, c). (ws, userId c, isHost c)) (clients room))
          (handle_all None (on_connection None 1 empty_room) msgs))
     [[(1, ''{type:presence-update,userId:host-1}'',
           ParsedValue (ex_msg ''presence-update'' (Some ''host-1'')))],
      [(1, ''{type:presence-update,userId:host-1}'',
           ParsedValue (ex_msg ''presence-update'' (Some ''host-1''))),
       (1, ''{type:join-request}'', ParsedValue (ex_msg ''join-request'' None))],
      [(1, ''{type:presence-update,userId:host-1}'',
           ParsedValue (ex_msg ''presence-update'' (Some ''host-1''))),
       (1, ''{type:join-request}'', ParsedValue (ex_msg ''join-request'' None)),
       (1, ''{type:presence-update,userId:host-1}'',
           ParsedValue (ex_msg ''presence-update'' (Some ''host-1'')))]]
   = [Inr [(1, ''host-1'', True)], Inr [(1, [], True)], Inr [(1, ''host-1'', False)]]"
  by (simp add: on_message_def on_connection_def new_client_def empty_room_def ex_msg_def
      ALLOWED_TYPES_def handle_join_request_def requires_approval_def sendTo_def
      track_presence_def truthy_def or_empty_def broadcast_def pinned_host_def findHost_def Let_def)

subsection \<open>The final broadcast of the message handler\<close>

text \<open>A message that reaches the final broadcast is written to the clients of
  the room that are approved and open, the sender left out; and whatever the
  message, unless it is a \<open>summon\<close> routed to one user, the handler writes it to
  its sender never.\<close>

lemma broadcast_loop_update:
  "broadcast_loop (AList.update S v cs) data (Some S) = broadcast_loop cs data (Some S)"
  by (induction cs) auto

lemma message_reaches_broadcast:
  assumes "map_of (clients room) S = Some client" "reaches_broadcast p client"
  shows "\<exists>room'. on_message serverRoom S data p room =
     Inr (room', map (\<lambda>(ws, c). (ws, Raw data))
                  (filter (\<lambda>(ws, c). ws \<noteq> S \<and> approved c \<and> readyState c = OPEN) (clients room)))"
proof -
  obtain msg t where p: "p = ParsedValue msg" and t: "m_type msg = Some t"
    using assms(2) by (auto simp: reaches_broadcast_def split: parsed.splits option.splits)
  have r: "t \<in> set ALLOWED_TYPES" "t \<noteq> ''join-request''"
    "\<not> (t = ''join-response'' \<and> isHost client)" "\<not> (t = ''kick'' \<and> isHost client)"
    "\<not> (t = ''file-op'' \<and> permission client = ''read-only'')" "approved client"
    "\<not> (t = ''summon'' \<and> m_targetUserId msg \<noteq> Some ''__all__'')"
    using assms(2) p t by (auto simp: reaches_broadcast_def targeted_summon_def)
  let ?room1 = "if t = ''presence-update''
               then room\<lparr>clients := AList.update S (track_presence serverRoom msg client room)
                                     (clients room)\<rparr>
               else room"
  have om: "on_message serverRoom S data p room = Inr (?room1, broadcast ?room1 (Raw data) (Some S))"
    using assms(1) p t r by (auto simp: on_message_def Let_def)
  have "broadcast ?room1 (Raw data) (Some S) =
      map (\<lambda>(ws, c). (ws, Raw data))
        (filter (\<lambda>(ws, c). ws \<noteq> S \<and> approved c \<and> readyState c = OPEN) (clients room))"
    using broadcast_loop_eq[of "clients room" "Raw data" "Some S"]
    by (simp add: broadcast_def broadcast_loop_update)
  then show ?thesis using om by simp
qed

lemma message_not_echoed:
  assumes "on_message serverRoom S data p room = Inr (room', out)" "\<not> targeted_summon p"
  shows "(S, Raw d) \<notin> set out"
proof (cases p)
  case ParseError
  then show ?thesis using assms by (simp add: on_message_def)
next
  case ParsedNull
  then show ?thesis using assms by (simp add: on_message_def)
next
  case (ParsedValue msg)
  then obtain client where c: "map_of (clients room) S = Some client"
    using assms(1) by (auto simp: on_message_def split: option.splits)
  have "out = []
     \<or> out = snd (handle_join_request serverRoom S msg client room)
     \<or> out = snd (handle_join_response msg room)
     \<or> out = snd (handle_kick msg room)
     \<or> (\<exists>room1. out = broadcast room1 (Raw data) (Some S))"
    using assms c ParsedValue
    by (auto simp: on_message_def targeted_summon_def Let_def split: option.splits if_splits)
  then show ?thesis
    using handle_kick_no_raw handle_join_request_no_raw handle_join_response_no_raw
    by (auto simp: broadcast_def broadcast_loop_eq)
qed

section \<open>CRDT channel: fan-out, relay, awareness bookkeeping\<close>

subsection \<open>Fan-out of replica and awareness updates\<close>

text \<open>The \<open>update\<close> handler of the replica writes the update to the open
  clients other than the origin; \<open>handleMessage\<close> runs it, with the sender as
  origin, when \<open>readSyncMessage\<close> applies an update, and runs the awareness
  handler when \<open>applyAwarenessUpdate\<close> emits a change.\<close>

lemma on_doc_update_sent:
  assumes "map_of (heap e) ref = Some state"
  shows "sent (on_doc_update roomId ref update origin e) =
     sent e @ map (\<lambda>c. (c, SyncUpdate update))
               (filter (\<lambda>c. Some c \<noteq> origin \<and> ready_of e c = OPEN) (clients_set state))"
    and "ready_of (on_doc_update roomId ref update origin e) = ready_of e"
proof -
  show "sent (on_doc_update roomId ref update origin e) =
     sent e @ map (\<lambda>c. (c, SyncUpdate update))
               (filter (\<lambda>c. Some c \<noteq> origin \<and> ready_of e c = OPEN) (clients_set state))"
    using assms
    by (cases "persistTimer state")
       (simp_all add: on_doc_update_def Let_def doc_update_fanout_def fanout_others_eq
          clearTimeout_def)
  show "ready_of (on_doc_update roomId ref update origin e) = ready_of e"
    using assms
    by (cases "persistTimer state")
       (auto simp: on_doc_update_def Let_def clearTimeout_def ready_of_def)
qed

lemma sync_update_fanout:
  assumes "map_of (heap e) ref = Some state" "readVarUint data = Inr (messageSync, body)"
  shows "sent (handleMessage S roomId ref data (SyncRead reply (Some update)) e) =
     sent e @ map (\<lambda>c. (c, SyncUpdate update))
               (filter (\<lambda>c. c \<noteq> S \<and> ready_of e c = OPEN) (clients_set state))
            @ (if length reply > 0 then ws_send (ready_of e) S (SyncReply reply) else [])"
  using assms on_doc_update_sent[OF assms(1), of roomId update "Some S"]
  by (simp add: handleMessage_def Let_def)

lemma awareness_update_fanout:
  assumes "map_of (heap e) ref = Some state" "readVarUint data = Inr (messageAwareness, body)"
  shows "sent (handleMessage S roomId ref data
             (AwarenessApplied states (Some (added, updated, removed))) e) =
     sent e @ map (\<lambda>c. (c, AwarenessFrame (added @ updated @ removed)))
               (filter (\<lambda>c. ready_of e c = OPEN) (clients_set state))"
  using assms
  by (simp add: handleMessage_def Let_def messageSync_def messageAwareness_def
      awareness_update_handler_def fanout_all_eq)

text \<open>
  Claim C6.  Let \<open>S\<close> be a socket, \<open>state\<close> the state object \<open>ref\<close> of a
  document, and \<open>client\<close> the entry of \<open>S\<close> in a control room.  The \<open>update\<close>
  handler of the replica, run with origin \<open>S\<close>, writes the update once to each
  client of the document that is open and is not \<open>S\<close>, and to no other socket.
  A sync frame from \<open>S\<close> whose update the library applies to the replica makes
  \<open>handleMessage\<close> write exactly that, followed by the library's reply to \<open>S\<close>
  if there is one.  An awareness frame from \<open>S\<close> whose change the library emits
  makes \<open>handleMessage\<close> write the awareness frame to every open client of the
  document, \<open>S\<close> included when it is one.  On the control channel, a message
  from \<open>S\<close> that reaches the final broadcast is written once to each client of
  the room that is approved, open and not \<open>S\<close>; and no message from \<open>S\<close>, other
  than a \<open>summon\<close> routed to one user, is written back to \<open>S\<close>.
\<close>

theorem no_self_echo:
  assumes "map_of (heap e) ref = Some state"
    and "readVarUint sync_frame = Inr (messageSync, body)"
    and "readVarUint awareness_frame = Inr (messageAwareness, body')"
    and "map_of (clients room) S = Some client"
  shows "sent (on_doc_update roomId ref update (Some S) e) =
       sent e @ map (\<lambda>c. (c, SyncUpdate update))
                 (filter (\<lambda>c. c \<noteq> S \<and> ready_of e c = OPEN) (clients_set state))
     \<and> sent (handleMessage S roomId ref sync_frame (SyncRead reply (Some update)) e) =
       sent e @ map (\<lambda>c. (c, SyncUpdate update))
                 (filter (\<lambda>c. c \<noteq> S \<and> ready_of e c = OPEN) (clients_set state))
              @ (if length reply > 0 then ws_send (ready_of e) S (SyncReply reply) else [])
     \<and> sent (handleMessage S roomId ref awareness_frame
               (AwarenessApplied states (Some (added, updated, removed))) e) =
       sent e @ map (\<lambda>c. (c, AwarenessFrame (added @ updated @ removed)))
                 (filter (\<lambda>c. ready_of e c = OPEN) (clients_set state))
     \<and> (reaches_broadcast p client \<longrightarrow>
          (\<exists>room'. on_message serverRoom S data p room =
             Inr (room', map (\<lambda>(ws, c). (ws, Raw data))
                          (filter (\<lambda>(ws, c). ws \<noteq> S \<and> approved c \<and> readyState c = OPEN)
                             (clients room)))))
     \<and> (on_message serverRoom S data p room = Inr (room', out) \<and> \<not> targeted_summon p \<longrightarrow>
          (S, Raw d) \<notin> set out)"
proof (intro conjI impI)
  show "sent (on_doc_update roomId ref update (Some S) e) =
       sent e @ map (\<lambda>c. (c, SyncUpdate update))
                 (filter (\<lambda>c. c \<noteq> S \<and> ready_of e c = OPEN) (clients_set state))"
    using on_doc_update_sent(1)[OF assms(1), of roomId update "Some S"] by simp
  show "sent (handleMessage S roomId ref sync_frame (SyncRead reply (Some update)) e) =
       sent e @ map (\<lambda>c. (c, SyncUpdate update))
                 (filter (\<lambda>c. c \<noteq> S \<and> ready_of e c = OPEN) (clients_set state))
              @ (if length reply > 0 then ws_send (ready_of e) S (SyncReply reply) else [])"
    using sync_update_fanout[OF assms(1,2)] .
  show "sent (handleMessage S roomId ref awareness_frame
               (AwarenessApplied states (Some (added, updated, removed))) e) =
       sent e @ map (\<lambda>c. (c, AwarenessFrame (added @ updated @ removed)))
                 (filter (\<lambda>c. ready_of e c = OPEN) (clients_set state))"
    using awareness_update_fanout[OF assms(1,3)] .
next
  assume "reaches_broadcast p client"
  then show "\<exists>room'. on_message serverRoom S data p room =
             Inr (room', map (\<lambda>(ws, c). (ws, Raw data))
                          (filter (\<lambda>(ws, c). ws \<noteq> S \<and> approved c \<and> readyState c = OPEN)
                             (clients room)))"
    using message_reaches_broadcast[OF assms(4)] by blast
next
  assume "on_message serverRoom S data p room = Inr (room', out) \<and> \<not> targeted_summon p"
  then show "(S, Raw d) \<notin> set out"
    using message_not_echoed by blast
qed

theorem no_self_echo_witness:
  "map_of (heap (run init_engine [Connect ''r:x'', LoadDone 1, Connect ''r:x''])) 1 = Some ex_state
   \<and> readVarUint [0, 2, 1, 7] = Inr (messageSync, [2, 1, 7])
   \<and> readVarUint [1, 1, 9] = Inr (messageAwareness, [1, 9])
   \<and> map_of (clients ex_room) 2 = Some (ex_member ''guest-1'' False True ''read-write'')
   \<and> sent (handleMessage 2 ''r:x'' 1 [0, 2, 1, 7] (SyncRead [] (Some [7]))
        (run init_engine [Connect ''r:x'', LoadDone 1, Connect ''r:x'']))
      = sent (run init_engine [Connect ''r:x'', LoadDone 1, Connect ''r:x''])
        @ [(0, SyncUpdate [7])]
   \<and> sent (handleMessage 2 ''r:x'' 1 [1, 1, 9]
        (AwarenessApplied [(1, ''{}''), (5, ''{cursor}'')] (Some ([5], [], [])))
        (run init_engine [Connect ''r:x'', LoadDone 1, Connect ''r:x'']))
      = sent (run init_engine [Connect ''r:x'', LoadDone 1, Connect ''r:x''])
        @ [(0, AwarenessFrame [5]), (2, AwarenessFrame [5])]
   \<and> reaches_broadcast (ParsedValue (ex_msg ''presence-update'' (Some ''guest-1'')))
        (ex_member ''guest-1'' False True ''read-write'')
   \<and> \<not> targeted_summon (ParsedValue (ex_msg ''presence-update'' (Some ''guest-1'')))
   \<and> on_message None 2 ''{type:presence-update,userId:guest-1}''
        (ParsedValue (ex_msg ''presence-update'' (Some ''guest-1''))) ex_room
      = Inr (ex_room, [(1, Raw ''{type:presence-update,userId:guest-1}''),
                       (3, Raw ''{type:presence-update,userId:guest-1}'')])
   \<and> (2, Raw ''{type:presence-update,userId:guest-1}'')
        \<notin> set [(1 :: nat, Raw ''{type:presence-update,userId:guest-1}''),
                 (3, Raw ''{type:presence-update,userId:guest-1}'')]"
proof -
  have e: "run init_engine [Connect ''r:x'', LoadDone 1, Connect ''r:x''] =
      init_engine\<lparr>roomStates := [(''r:x'', 1)], heap := [(1, ex_state)],
        attached := [(0, ''r:x'', 1), (2, ''r:x'', 1)], ready := [(0, OPEN), (2, OPEN)],
        next_id := 3, constructed := [(''r:x'', 1)],
        sent := [(0, SyncStep1), (0, AwarenessFrame [1]), (2, SyncStep1), (2, AwarenessFrame [1])]\<rparr>"
    by (simp add: run_def init_engine_def on_connect_def getOrCreateRoom_def createRoom_def
        on_load_done_def attach_def new_state_def set_add_def sendSyncStep1_def
        sendAwarenessState_def ws_send_def ready_of_def ex_state_def Let_def)
  have h: "map_of (heap (run init_engine [Connect ''r:x'', LoadDone 1, Connect ''r:x''])) 1
      = Some ex_state"
    and r: "ready_of (run init_engine [Connect ''r:x'', LoadDone 1, Connect ''r:x'']) 0 = OPEN"
      "ready_of (run init_engine [Connect ''r:x'', LoadDone 1, Connect ''r:x'']) 2 = OPEN"
    unfolding e by (simp_all add: ready_of_def)
  have v: "readVarUint [0, 2, 1, 7] = Inr (messageSync, [2, 1, 7])"
    "readVarUint [1, 1, 9] = Inr (messageAwareness, [1, 9])"
    by (simp_all add: readVarUint_def messageSync_def messageAwareness_def)
  have c: "map_of (clients ex_room) 2 = Some (ex_member ''guest-1'' False True ''read-write'')"
    by (simp add: ex_room_def)
  have b: "reaches_broadcast (ParsedValue (ex_msg ''presence-update'' (Some ''guest-1'')))
        (ex_member ''guest-1'' False True ''read-write'')"
    "\<not> targeted_summon (ParsedValue (ex_msg ''presence-update'' (Some ''guest-1'')))"
    by (simp_all add: reaches_broadcast_def targeted_summon_def ex_msg_def ex_member_def
        ALLOWED_TYPES_def)
  have m: "on_message None 2 ''{type:presence-update,userId:guest-1}''
        (ParsedValue (ex_msg ''presence-update'' (Some ''guest-1''))) ex_room
      = Inr (ex_room, [(1, Raw ''{type:presence-update,userId:guest-1}''),
                       (3, Raw ''{type:presence-update,userId:guest-1}'')])"
    by (simp add: on_message_def ex_room_def ex_msg_def ex_member_def ALLOWED_TYPES_def
        track_presence_def truthy_def or_empty_def broadcast_def Let_def)
  note t = no_self_echo
      [where e = "run init_engine [Connect ''r:x'', LoadDone 1, Connect ''r:x'']"
         and ref = 1 and state = ex_state and sync_frame = "[0, 2, 1, 7]" and body = "[2, 1, 7]"
         and awareness_frame = "[1, 1, 9]" and body' = "[1, 9]" and room = ex_room and S = 2
         and client = "ex_member ''guest-1'' False True ''read-write''"
         and roomId = "''r:x''" and update = "[7]" and reply = "[]"
         and states = "[(1, ''{}''), (5, ''{cursor}'')]" and added = "[5]" and updated = "[]"
         and removed = "[]"
         and p = "ParsedValue (ex_msg ''presence-update'' (Some ''guest-1''))"
         and serverRoom = None and data = "''{type:presence-update,userId:guest-1}''"
         and room' = ex_room
         and out = "[(1, Raw ''{type:presence-update,userId:guest-1}''),
                     (3, Raw ''{type:presence-update,userId:guest-1}'')]"
         and d = "''{type:presence-update,userId:guest-1}''", OF h v c]
  have t1: "sent (handleMessage 2 ''r:x'' 1 [0, 2, 1, 7] (SyncRead [] (Some [7]))
        (run init_engine [Connect ''r:x'', LoadDone 1, Connect ''r:x'']))
      = sent (run init_engine [Connect ''r:x'', LoadDone 1, Connect ''r:x''])
        @ [(0, SyncUpdate [7])]"
    using t r by (simp add: ex_state_def new_state_def)
  have t2: "sent (handleMessage 2 ''r:x'' 1 [1, 1, 9]
        (AwarenessApplied [(1, ''{}''), (5, ''{cursor}'')] (Some ([5], [], [])))
        (run init_engine [Connect ''r:x'', LoadDone 1, Connect ''r:x'']))
      = sent (run init_engine [Connect ''r:x'', LoadDone 1, Connect ''r:x''])
        @ [(0, AwarenessFrame [5]), (2, AwarenessFrame [5])]"
    using t r by (simp add: ex_state_def new_state_def)
  have t3: "(2, Raw ''{type:presence-update,userId:guest-1}'')
        \<notin> set [(1 :: nat, Raw ''{type:presence-update,userId:guest-1}''),
                 (3, Raw ''{type:presence-update,userId:guest-1}'')]"
    using t b m by blast
  show ?thesis using h v c t1 t2 t3 b m by blast
qed

subsection \<open>File operations\<close>

text \<open>On the control channel a \<open>file-op\<close> of a read-only sender is dropped.\<close>

lemma read_only_file_op_dropped:
  assumes "map_of (clients room) ws = Some client" "permission client = ''read-only''"
    "m_type msg = Some ''file-op''"
  shows "on_message serverRoom ws data (ParsedValue msg) room = Inr (room, [])"
  using assms by (simp add: on_message_def ALLOWED_TYPES_def)

text \<open>On the CRDT channel a frame of type 2 goes to the other open clients of
  the document; nothing of the sender is looked at.\<close>

lemma file_op_frame_relayed:
  assumes "readVarUint data = Inr (2, body)" "map_of (heap e) ref = Some state"
  shows "sent (handleMessage ws roomId ref data lib e) =
     sent e @ map (\<lambda>c. (c, Relayed data))
               (filter (\<lambda>c. c \<noteq> ws \<and> ready_of e c = OPEN) (clients_set state))"
  using assms
  by (simp add: handleMessage_def messageSync_def messageAwareness_def messageFileOp_def
      fanout_others_eq)

text \<open>
  Claim C3, at a concrete run.  On the control channel the \<open>file-op\<close> of the
  read-only client of socket 3 is dropped.  On the CRDT channel the engine
  keeps no permission: two sockets, 0 and 2, are connected to the document
  \<open>r:x\<close>, and socket 0, of whatever participant, sends the frame \<open>[2, 1, 120]\<close>
  (type 2, a one-byte body).  After the frames of the two connections, the
  server writes the frame, as received, to socket 2.
\<close>

theorem crdt_file_op_reaches_peer:
  "on_message (Some (ex_meta None None (Some ''read-only''))) 3 ''{type:file-op}''
      (ParsedValue (ex_msg ''file-op'' None)) ex_room = Inr (ex_room, [])
   \<and> sent (run init_engine
          [Connect ''r:x'', LoadDone 1, Connect ''r:x'', Frame 0 [2, 1, 120] LibThrows])
     = [(0, SyncStep1), (0, AwarenessFrame [1]), (2, SyncStep1), (2, AwarenessFrame [1]),
        (2, Relayed [2, 1, 120])]"
proof
  show "on_message (Some (ex_meta None None (Some ''read-only''))) 3 ''{type:file-op}''
      (ParsedValue (ex_msg ''file-op'' None)) ex_room = Inr (ex_room, [])"
    by (simp add: on_message_def ex_room_def ex_msg_def ex_member_def ALLOWED_TYPES_def)
  show "sent (run init_engine
          [Connect ''r:x'', LoadDone 1, Connect ''r:x'', Frame 0 [2, 1, 120] LibThrows])
     = [(0, SyncStep1), (0, AwarenessFrame [1]), (2, SyncStep1), (2, AwarenessFrame [1]),
        (2, Relayed [2, 1, 120])]"
    by (simp add: run_def init_engine_def on_connect_def getOrCreateRoom_def createRoom_def
        on_load_done_def attach_def new_state_def set_add_def sendSyncStep1_def
        sendAwarenessState_def ws_send_def ready_of_def on_frame_def handleMessage_def
        readVarUint_def messageSync_def messageAwareness_def messageFileOp_def Let_def)
qed

subsection \<open>Awareness ids of a socket\<close>

lemma set_add_ids: "set (add_ids ids xs) = set ids \<union> set xs"
  by (induction xs arbitrary: ids) (auto simp: set_add_def)

lemma keys_delete: "fst ` set (AList.delete k l) = fst ` set l - {k}"
  by (induction l) auto

lemma removeAwarenessStates_loop_keys:
  "fst ` set (fst (removeAwarenessStates_loop states ids)) = fst ` set states - set ids"
proof (induction ids arbitrary: states)
  case Nil
  then show ?case by simp
next
  case (Cons clientID rest)
  show ?case
  proof (cases "clientID \<in> fst ` set states")
    case True
    obtain x1 x2 where r: "removeAwarenessStates_loop (AList.delete clientID states) rest = (x1, x2)"
      by (cases "removeAwarenessStates_loop (AList.delete clientID states) rest")
    have "fst ` set x1 = fst ` set states - {clientID} - set rest"
      using Cons[of "AList.delete clientID states"] r by (simp add: keys_delete)
    moreover have "fst (removeAwarenessStates_loop states (clientID # rest)) = x1"
      using True r by simp
    ultimately show ?thesis by (simp only: set_simps) blast
  next
    case False
    then show ?thesis using Cons[of states] by auto
  qed
qed

lemma awareness_update_handler_state:
  "fst (awareness_update_handler rs state added updated removed origin) =
     (case origin of
        None \<Rightarrow> state
      | Some ws \<Rightarrow>
          state\<lparr>clientAwarenessIds := track_ids (clientAwarenessIds state) ws added updated\<rparr>)"
  by (simp add: awareness_update_handler_def Let_def split: option.splits)

lemma removeAwarenessStates_state:
  "fst (removeAwarenessStates rs state ids) =
     state\<lparr>awareness := fst (removeAwarenessStates_loop (awareness state) ids)\<rparr>"
  by (simp add: removeAwarenessStates_def awareness_update_handler_state Let_def
      split: prod.splits)

lemma ws_close_handler_state:
  "fst (ws_close_handler rs ws state) =
     state\<lparr>clients_set := removeAll ws (clients_set state),
           awareness :=
             (case map_of (clientAwarenessIds state) ws of
                None \<Rightarrow> awareness state
              | Some ids \<Rightarrow> fst (removeAwarenessStates_loop (awareness state) ids)),
           clientAwarenessIds := AList.delete ws (clientAwarenessIds state)\<rparr>"
proof (cases "map_of (clientAwarenessIds state) ws")
  case None
  then show ?thesis by (simp add: ws_close_handler_def Let_def)
next
  case (Some ids)
  show ?thesis
  proof (cases "ids = []")
    case True
    then show ?thesis using Some by (simp add: ws_close_handler_def Let_def)
  next
    case False
    have "ws_close_handler rs ws state =
        (let r = removeAwarenessStates rs (state\<lparr>clients_set := removeAll ws (clients_set state)\<rparr>) ids
         in ((fst r)\<lparr>clientAwarenessIds := AList.delete ws (clientAwarenessIds (fst r))\<rparr>, snd r))"
      using Some False by (simp add: ws_close_handler_def Let_def split: prod.splits)
    then show ?thesis using Some by (simp add: Let_def removeAwarenessStates_state)
  qed
qed

lemma tracked_step:
  assumes "ev \<noteq> SocketClosed S"
  shows "tracked S (doc_step rs state ev) =
     tracked S state \<union>
       (case ev of
          AwarenessUpdate states added updated removed origin \<Rightarrow>
            if origin = Some S then set added \<union> set updated else {}
        | SocketClosed ws \<Rightarrow> {})"
proof (cases ev)
  case (AwarenessUpdate states added updated removed origin)
  then show ?thesis
    by (auto simp: tracked_def awareness_update_handler_state track_ids_def update_conv
        set_add_ids Let_def split: option.splits)
next
  case (SocketClosed ws)
  then have "ws \<noteq> S" using assms by simp
  then show ?thesis
    using SocketClosed by (simp add: tracked_def ws_close_handler_state delete_conv)
qed

lemma announced_tracked:
  assumes "SocketClosed S \<notin> set evs"
  shows "tracked S (foldl (doc_step rs) state evs) = tracked S state \<union> set (announced S evs)"
  using assms
proof (induction evs arbitrary: state)
  case Nil
  then show ?case by simp
next
  case (Cons ev evs)
  have ne: "ev \<noteq> SocketClosed S" and rest: "SocketClosed S \<notin> set evs"
    using Cons.prems by auto
  show ?case
    using Cons.IH[OF rest, of "doc_step rs state ev"] tracked_step[OF ne, of rs state]
    by (cases ev) auto
qed

lemma close_removes_tracked:
  "tracked S state \<inter> fst ` set (awareness (fst (ws_close_handler rs S state))) = {}"
  by (auto simp: tracked_def ws_close_handler_state removeAwarenessStates_loop_keys
      split: option.splits)

text \<open>
  Claim C9.  Let the awareness object of a document emit any sequence of
  updates, with any sockets of the document but \<open>S\<close> closing in between, and let
  \<open>S\<close> close then.  After the \<open>close\<close> handler of \<open>S\<close>, no id of the added or
  updated list of an update that originated from \<open>S\<close> has a state in the
  awareness object, and the index of awareness ids has no entry for \<open>S\<close>.
\<close>

theorem awareness_cleanup:
  assumes "SocketClosed S \<notin> set evs"
  shows "set (announced S evs)
           \<inter> fst ` set (awareness (fst (ws_close_handler rs S (foldl (doc_step rs) state evs)))) = {}
     \<and> map_of (clientAwarenessIds (fst (ws_close_handler rs S (foldl (doc_step rs) state evs)))) S
         = None"
  using announced_tracked[OF assms, of rs state]
    close_removes_tracked[of S "foldl (doc_step rs) state evs" rs]
  by (auto simp: ws_close_handler_state delete_conv)

theorem awareness_cleanup_witness:
  "SocketClosed 0 \<notin> set [AwarenessUpdate [(1, ''{}''), (77, ''a'')] [77] [] [] (Some 0),
                           AwarenessUpdate [(1, ''{}''), (77, ''b''), (88, ''c'')] [88] [77] [] (Some 2)]
   \<and> announced 0 [AwarenessUpdate [(1, ''{}''), (77, ''a'')] [77] [] [] (Some 0),
                   AwarenessUpdate [(1, ''{}''), (77, ''b''), (88, ''c'')] [88] [77] [] (Some 2)]
       = [77]
   \<and> awareness (fst (ws_close_handler all_open 0
        (foldl (doc_step all_open) ex_state
           [AwarenessUpdate [(1, ''{}''), (77, ''a'')] [77] [] [] (Some 0),
            AwarenessUpdate [(1, ''{}''), (77, ''b''), (88, ''c'')] [88] [77] [] (Some 2)])))
       = [(1, ''{}''), (88, ''c'')]
   \<and> clientAwarenessIds (fst (ws_close_handler all_open 0
        (foldl (doc_step all_open) ex_state
           [AwarenessUpdate [(1, ''{}''), (77, ''a'')] [77] [] [] (Some 0),
            AwarenessUpdate [(1, ''{}''), (77, ''b''), (88, ''c'')] [88] [77] [] (Some 2)])))
       = [(2, [88, 77])]"
  using awareness_cleanup
    [of 0 "[AwarenessUpdate [(1, ''{}''), (77, ''a'')] [77] [] [] (Some 0),
            AwarenessUpdate [(1, ''{}''), (77, ''b''), (88, ''c'')] [88] [77] [] (Some 2)]"
        all_open ex_state]
  by (simp add: ws_close_handler_state awareness_update_handler_state track_ids_def
      set_add_def ex_state_def new_state_def)

section \<open>Idle destruction (ws-handler)\<close>

text \<open>A timer that is not yet due does not fire.\<close>

lemma timer_not_due:
  assumes "map_of (timers e) h = Some (due, cb)" "now e < due"
  shows "on_timer h e = e"
  using assms by (simp add: on_timer_def)

text \<open>The last client's \<open>close\<close> starts the idle timer, due 30 seconds later.\<close>

lemma last_close_starts_timer:
  assumes "map_of (attached e) ws = Some (roomId, ref)" "map_of (heap e) ref = Some state"
    "clients_set state = [ws]" "map_of (timers e) (next_id e) = None"
  shows "map_of (timers (on_ws_close ws e)) (next_id e)
           = Some (now e + 30000, CleanupCb roomId ref)
     \<and> map_option cleanupTimer (map_of (heap (on_ws_close ws e)) ref) = Some (Some (next_id e))"
proof -
  let ?e0 = "e\<lparr>ready := AList.update ws CLOSED (ready e)\<rparr>"
  obtain state1 out where r: "ws_close_handler (ready_of ?e0) ws state = (state1, out)"
    by (cases "ws_close_handler (ready_of ?e0) ws state")
  have "clients_set (fst (ws_close_handler (ready_of ?e0) ws state)) = []"
    using assms(3) by (simp add: ws_close_handler_state)
  then have c: "clients_set state1 = []" using r by simp
  show ?thesis
    using assms r c by (simp add: on_ws_close_def Let_def update_conv map_add_def)
qed

text \<open>A connection to a document whose idle timer is pending cancels the timer
  and joins the same state object.\<close>

lemma connect_cancels_idle_timer:
  assumes "map_of (roomStates e) roomId = Some ref" "map_of (heap e) ref = Some state"
    "cleanupTimer state = Some h"
  shows "map_of (timers (on_connect roomId e)) h = None
     \<and> map_of (roomStates (on_connect roomId e)) roomId = Some ref
     \<and> map_of (attached (on_connect roomId e)) (next_id e) = Some (roomId, ref)
     \<and> map_option cleanupTimer (map_of (heap (on_connect roomId e)) ref) = Some None
     \<and> map_option clients_set (map_of (heap (on_connect roomId e)) ref)
         = Some (set_add (next_id e) (clients_set state))"
  using assms
  by (simp add: on_connect_def getOrCreateRoom_def attach_def clearTimeout_def Let_def
      update_conv delete_conv)

text \<open>
  Claim C8, at a concrete run.  The only client (socket 0) of the document
  \<open>r:x\<close> closes; 30 seconds later the idle timer (handle 2) fires with no
  client connected, and \<open>cleanupRoom\<close> waits for the store.  Socket 3 connects:
  the document is still in the room map, so the socket joins its state.  The
  store write completes: the awareness states are removed, the replica is
  destroyed and the document is dropped from the map, while socket 3 is open
  and a client of the destroyed state.
\<close>

theorem cleanup_destroys_document_with_client:
  "(let e = run init_engine
              [Connect ''r:x'', LoadDone 1, Close 0, Tick 30000, TimerFire 2,
               Connect ''r:x'', PersistDone 1]
    in (map_of (roomStates e) ''r:x'', destroyed e, map_of (heap e) 1,
        ready_of e 3, map_of (attached e) 3, now e))
   = (None, [1],
      Some \<lparr> doc = 1, awareness = [], clients_set = [3], clientAwarenessIds = [],
             cleanupTimer = None, persistTimer = None \<rparr>,
      OPEN, Some (''r:x'', 1), 30000)"
  by (simp add: run_def init_engine_def on_connect_def getOrCreateRoom_def createRoom_def
      on_load_done_def attach_def new_state_def set_add_def sendSyncStep1_def
      sendAwarenessState_def ws_send_def ready_of_def on_ws_close_def ws_close_handler_def
      removeAwarenessStates_def awareness_update_handler_def on_timer_def cleanupRoom_def
      cleanupRoom_resume_def on_persist_done_def clearTimeout_def Let_def)

section \<open>Gateway (index)\<close>

text \<open>A socket is handed to an engine only after every check has passed.\<close>

lemma handed_to_yjs_only_if:
  assumes "upgrade require_auth verifyJWT rooms url = HandedToYjs name"
  shows "match_route ''/ws/'' (pathname url) = Some name
     \<and> (\<exists>room tok. map_of rooms (baseRoomId name) = Some room
           \<and> token_param url = Some tok \<and> tok \<noteq> []
           \<and> safeTokenCompare tok (token room) = Inr True)
     \<and> (require_auth \<longrightarrow> (\<exists>j. jwt_param url = Some j \<and> j \<noteq> [] \<and> verifyJWT j))"
  using assms
  by (auto simp: upgrade_def split: option.splits if_splits sum.splits)

lemma handed_to_control_only_if:
  assumes "upgrade require_auth verifyJWT rooms url = HandedToControl roomId"
  shows "match_route ''/ws/'' (pathname url) = None
     \<and> match_route ''/control/'' (pathname url) = Some roomId
     \<and> (\<exists>room tok. map_of rooms roomId = Some room
           \<and> token_param url = Some tok \<and> tok \<noteq> []
           \<and> safeTokenCompare tok (token room) = Inr True)
     \<and> (require_auth \<longrightarrow> (\<exists>j. jwt_param url = Some j \<and> j \<noteq> [] \<and> verifyJWT j))"
  using assms
  by (auto simp: upgrade_def split: option.splits if_splits sum.splits)

text \<open>The comparison throws exactly when the two strings have the same number
  of code units and different numbers of UTF-8 bytes.\<close>

lemma safeTokenCompare_throws_iff:
  "(\<exists>err. safeTokenCompare a b = Inl err)
     \<longleftrightarrow> length a = length b \<and> length (utf8_encode a) \<noteq> length (utf8_encode b)"
  by (auto simp: safeTokenCompare_def timingSafeEqual_def)

lemma utf8_encode_ascii_cons:
  assumes "unat u < 128"
  shows "utf8_encode (u # rest) = of_nat (unat u) # utf8_encode rest"
  using assms
  by (cases rest)
     (simp_all add: is_high_surrogate_def is_low_surrogate_def utf8_code_point_def)

lemma utf8_encode_ascii_length:
  "list_all (\<lambda>u. unat u < 128) a \<Longrightarrow> length (utf8_encode a) = length a"
  by (induction a) (simp_all add: utf8_encode_ascii_cons)

text \<open>Two tokens of ASCII letters are compared without an exception.\<close>

lemma ascii_tokens_never_throw:
  assumes "list_all (\<lambda>u. unat u < 128) a" "list_all (\<lambda>u. unat u < 128) b"
  shows "safeTokenCompare a b = Inr (length a = length b \<and> utf8_encode a = utf8_encode b)"
  using utf8_encode_ascii_length[OF assms(1)] utf8_encode_ascii_length[OF assms(2)]
  by (auto simp: safeTokenCompare_def timingSafeEqual_def)

lemma utf8_encode_replicate_ascii:
  "utf8_encode (replicate n 97 @ rest) = replicate n 97 @ utf8_encode rest"
  by (induction n) (simp_all add: utf8_encode_ascii_cons)

text \<open>
  Claim C5, at a concrete request.  The room \<open>V1StGXR8_Z5j\<close> has a token of 24
  letters.  A request for \<open>/ws/V1StGXR8_Z5j:notes.md\<close> carries a token of 24
  code units, the last of them U+00E9, which is two bytes in UTF-8.  The
  handler neither destroys the socket nor hands it over: the comparison throws.
\<close>

theorem upgrade_throws_on_token_of_other_byte_length:
  "upgrade False (\<lambda>j. False) ex_registry
     \<lparr> pathname = ''/ws/V1StGXR8_Z5j:notes.md'', token_param = Some ex_bad_token,
       jwt_param = None \<rparr>
   = Threw ERR_CRYPTO_TIMING_SAFE_EQUAL_LENGTH"
proof -
  have m: "match_route ''/ws/'' ''/ws/V1StGXR8_Z5j:notes.md'' = Some ''V1StGXR8_Z5j:notes.md''"
    by (simp add: match_route_def)
  have b: "baseRoomId ''V1StGXR8_Z5j:notes.md'' = ''V1StGXR8_Z5j''"
    by (simp add: baseRoomId_def)
  have r: "map_of ex_registry ''V1StGXR8_Z5j'' = Some (ex_meta None None None)"
    by (simp add: ex_registry_def)
  have e1: "length (utf8_encode (token (ex_meta None None None))) = 24"
    using utf8_encode_replicate_ascii[of 24 "[]"] by (simp add: ex_meta_def)
  have e2: "length (utf8_encode ex_bad_token) = 25"
    using utf8_encode_replicate_ascii[of 23 "[233]"]
    by (simp add: ex_bad_token_def is_high_surrogate_def is_low_surrogate_def
        utf8_code_point_def)
  have l: "length ex_bad_token = length (token (ex_meta None None None))"
    by (simp add: ex_bad_token_def ex_meta_def)
  have c: "safeTokenCompare ex_bad_token (token (ex_meta None None None))
             = Inl ERR_CRYPTO_TIMING_SAFE_EQUAL_LENGTH"
    using e1 e2 l by (simp add: safeTokenCompare_def timingSafeEqual_def)
  have n: "ex_bad_token \<noteq> []" by (simp add: ex_bad_token_def)
  show ?thesis using m b r c n by (simp add: upgrade_def)
qed

section \<open>Persistence round trip (persistence)\<close>

lemma db_get_put: "db_get (db_put db key v) key' = (if key' = key then Inr v else db_get db key')"
  by (simp add: db_get_def db_put_def update_conv)

text \<open>What \<open>loadDoc\<close> gives after \<open>persistDoc\<close> under the same name: the outcome
  of applying the encoded state to the given replica.\<close>

lemma load_after_persist:
  "loadDoc applyUpdate (persistDoc encodeStateAsUpdate db docName d) docName d0 =
     (case applyUpdate d0 (encodeStateAsUpdate d) of
        (d', None) \<Rightarrow> Inr d'
      | (d', Some err) \<Rightarrow> if err = ErrorWithCode ''LEVEL_NOT_FOUND'' then Inr d' else Inl err)"
  by (simp add: loadDoc_def persistDoc_def db_get_put)

text \<open>
  Claim C10.  \<open>persistDoc\<close> stores, under the document's key, the replica
  encoded as a full state update.  Where the CRDT library applies that update
  to a fresh replica without error and the result encodes to the same bytes
  (the library's round trip), \<open>loadDoc\<close> on the fresh replica under the same
  name returns that result, whose encoded state is the stored value; a
  \<open>persistDoc\<close> of another document in between changes nothing of it.  With no
  value under the document's key, \<open>loadDoc\<close> returns the replica unchanged and
  no error.
\<close>

theorem persist_load_roundtrip:
  assumes "applyUpdate fresh (encodeStateAsUpdate d) = (d', None)"
    and "encodeStateAsUpdate d' = encodeStateAsUpdate d"
  shows "db_get (persistDoc encodeStateAsUpdate db docName d) (''doc:'' @ docName)
           = Inr (encodeStateAsUpdate d)
     \<and> loadDoc applyUpdate (persistDoc encodeStateAsUpdate db docName d) docName fresh = Inr d'
     \<and> db_get (persistDoc encodeStateAsUpdate db docName d) (''doc:'' @ docName)
           = Inr (encodeStateAsUpdate d')
     \<and> (other \<noteq> docName \<longrightarrow>
          loadDoc applyUpdate
            (persistDoc encodeStateAsUpdate (persistDoc encodeStateAsUpdate db docName d) other d2)
            docName fresh = Inr d')
     \<and> (map_of db (''doc:'' @ docName) = None \<longrightarrow>
          loadDoc applyUpdate db docName fresh = Inr fresh)"
proof (intro conjI impI)
  show s: "db_get (persistDoc encodeStateAsUpdate db docName d) (''doc:'' @ docName)
           = Inr (encodeStateAsUpdate d)"
    by (simp add: persistDoc_def db_get_put)
  show "loadDoc applyUpdate (persistDoc encodeStateAsUpdate db docName d) docName fresh = Inr d'"
    using assms(1) by (simp add: load_after_persist)
  show "db_get (persistDoc encodeStateAsUpdate db docName d) (''doc:'' @ docName)
           = Inr (encodeStateAsUpdate d')"
    using s assms(2) by simp
next
  assume "other \<noteq> docName"
  then have "db_get (persistDoc encodeStateAsUpdate
                 (persistDoc encodeStateAsUpdate db docName d) other d2) (''doc:'' @ docName)
      = Inr (encodeStateAsUpdate d)"
    by (simp add: persistDoc_def db_get_put)
  then show "loadDoc applyUpdate
            (persistDoc encodeStateAsUpdate (persistDoc encodeStateAsUpdate db docName d) other d2)
            docName fresh = Inr d'"
    using assms(1) by (simp add: loadDoc_def)
next
  assume "map_of db (''doc:'' @ docName) = None"
  then show "loadDoc applyUpdate db docName fresh = Inr fresh"
    by (simp add: loadDoc_def db_get_def)
qed

theorem persist_load_roundtrip_witness:
  "log_apply [] (log_encode [104, 105]) = ([104, 105], None)
   \<and> log_encode [104, 105] = log_encode [104, 105]
   \<and> loadDoc log_apply (persistDoc log_encode [] ''r:x'' [104, 105]) ''r:x'' [] = Inr [104, 105]
   \<and> db_get (persistDoc log_encode [] ''r:x'' [104, 105]) ''doc:r:x'' = Inr [104, 105]
   \<and> map_of ([] :: leveldb) ''doc:r:x'' = None
   \<and> loadDoc log_apply [] ''r:x'' [] = Inr []"
  using persist_load_roundtrip
    [of log_apply "[]" log_encode "[104, 105]" "[104, 105]" "[]" "''r:x''" "''r:y''" "[]"]
  by (simp add: log_apply_def log_encode_def)

end
